theory Spec2Isabelle
  imports Complex_Main "HOL-Library.Multiset" "HOL-Library.Product_Lexorder"
begin

section \<open>Rating engine\<close>

text \<open>
  The rating engine is the pair of pure functions \<open>calculateExpectedScore\<close> and
  \<open>calculateNewRating\<close>. They exist twice in the source with the same body: as exported
  functions of the Elo service and as private methods of \<open>QueueService\<close>. One embedding
  serves both.

  A JavaScript \<open>number\<close> is a double. In \<open>calculateExpectedScore\<close> and
  \<open>calculateNewRating\<close> it is read as a real number: \<open>Math.pow(10, y)\<close> is
  \<open>10 powr y\<close>, and \<open>Math.round x\<close> is the integer \<open>\<lfloor>x + 1/2\<rfloor>\<close> (halves go up), which
  is exact on doubles. The two functions therefore give the value of the code wherever
  the code's arithmetic is exact, as it is for two ratings of 1000, and a value next to
  it elsewhere. \<open>calculateNewRating_fl\<close> below is the same computation with the rounding
  of each arithmetic result made explicit.
\<close>

definition K_FACTOR :: real where
  "K_FACTOR = 32"

definition PROVISIONAL_K_FACTOR :: real where
  "PROVISIONAL_K_FACTOR = 64"

definition PROVISIONAL_THRESHOLD :: int where
  "PROVISIONAL_THRESHOLD = 10"

definition Math_round :: "real \<Rightarrow> real" where
  "Math_round x = of_int \<lfloor>x + 1 / 2\<rfloor>"

definition Math_max :: "real \<Rightarrow> real \<Rightarrow> real" where
  "Math_max a b = (if a < b then b else a)"

definition calculateExpectedScore :: "real \<Rightarrow> real \<Rightarrow> real" where
  "calculateExpectedScore playerRating opponentRating =
     1 / (1 + 10 powr ((opponentRating - playerRating) / 400))"

definition kFactor :: "int \<Rightarrow> real" where
  "kFactor gamesPlayed =
     (if gamesPlayed < PROVISIONAL_THRESHOLD then PROVISIONAL_K_FACTOR else K_FACTOR)"

definition calculateNewRating :: "real \<Rightarrow> real \<Rightarrow> real \<Rightarrow> int \<Rightarrow> real" where
  "calculateNewRating currentRating expectedScore actualScore gamesPlayed =
     Math_round (currentRating + kFactor gamesPlayed * (actualScore - expectedScore))"




section \<open>Durable store and player state store\<close>

text \<open>
  The tables \<open>player_ratings\<close>, \<open>queue_entries\<close> and \<open>matches\<close> of the schema, one
  record per row. Timestamps are milliseconds as integers, a nullable column is an
  \<open>option\<close>, and the \<open>status\<close> columns range over the values the schema comments list.
  The columns \<open>id\<close>, \<open>gameMode\<close>, \<open>playerId\<close> and \<open>status\<close> occur in several tables and
  carry the table as a prefix here.
\<close>

record player_rating =
  playerId :: string
  gameMode :: string
  rating :: real
  gamesPlayed :: int
  wins :: int
  losses :: int
  draws :: int
  lastPlayed :: "int option"
  peakRating :: real

datatype entry_status = Waiting | Matched | Cancelled

record queue_entry =
  entry_id :: int
  entry_playerId :: string
  entry_gameMode :: string
  joinedAt :: int
  entry_status :: entry_status
  matchId :: "int option"

datatype match_status = In_progress | Completed | Match_cancelled

record match_row =
  match_id :: int
  match_gameMode :: string
  player1Id :: string
  player2Id :: string
  startedAt :: int
  completedAt :: "int option"
  winnerId :: "string option"
  match_status :: match_status
  gameNumber :: int

datatype player_status = Idle | Queuing | In_game

record current_match =
  opponentId :: string
  startTime :: int

record player_state =
  status :: player_status
  queueStartTime :: "int option"
  currentMatch :: "current_match option"

text \<open>
  The state every queue operation works on: the ids of the rows of the \<open>user\<close> table,
  the three tables in the order the store scans them, the two identity sequences that
  generate \<open>queue_entries.id\<close> and \<open>matches.id\<close>, the player states kept in Redis
  under \<open>PLAYER_STATE_KEY\<close>, and the events given to the global emitter, oldest first.
\<close>

record store =
  users :: "string list"
  queue_entries :: "queue_entry list"
  matches :: "match_row list"
  player_ratings :: "player_rating list"
  next_entry_id :: int
  next_match_id :: int
  redis_states :: "string \<rightharpoonup> player_state"
  emitted :: "(string \<times> player_state) list"

datatype error =
  Match_not_found int | Foreign_key_violation | Redis_unavailable | Upstream_unavailable
  | Store_unavailable

text \<open>
  The columns \<open>queue_entries.player_id\<close>, \<open>matches.player1_id\<close>, \<open>matches.player2_id\<close>
  and \<open>matches.winner_id\<close> are foreign keys to \<open>user.id\<close>. An id has a row in the
  \<open>user\<close> table when it is listed in \<open>users\<close>; an id that a stored row holds in one of
  these columns has one by the constraint of that column.
\<close>

definition is_user :: "store \<Rightarrow> string \<Rightarrow> bool" where
  "is_user s uid \<longleftrightarrow>
     uid \<in> set (users s)
     \<or> uid \<in> set (map entry_playerId (queue_entries s))
     \<or> uid \<in> set (map player1Id (matches s))
     \<or> uid \<in> set (map player2Id (matches s))
     \<or> Some uid \<in> set (map winnerId (matches s))"

definition winner_references_user :: "store \<Rightarrow> string option \<Rightarrow> bool" where
  "winner_references_user s winner =
     (case winner of None \<Rightarrow> True | Some w \<Rightarrow> is_user s w)"

definition PLAYER_STATE_KEY :: "string \<Rightarrow> string" where
  "PLAYER_STATE_KEY userId = ''player:'' @ userId @ '':state''"

definition state_change :: "string \<Rightarrow> string" where
  "state_change userId = ''state-change:'' @ userId"

text \<open>
  \<open>redis.set\<close> followed by \<open>globalEmitter.emit\<close> are the two effects on the player state
  store. A call of \<open>redis.set\<close> throws when Redis is unavailable; the flag \<open>redis_ok\<close> of
  each operation says whether Redis answers during that call.
\<close>

definition redis_set :: "string \<Rightarrow> player_state \<Rightarrow> store \<Rightarrow> store" where
  "redis_set key v s = s\<lparr>redis_states := (redis_states s)(key \<mapsto> v)\<rparr>"

definition emit :: "string \<Rightarrow> player_state \<Rightarrow> store \<Rightarrow> store" where
  "emit event v s = s\<lparr>emitted := emitted s @ [(event, v)]\<rparr>"

section \<open>Rating update\<close>

definition getPlayerRating :: "string \<Rightarrow> string \<Rightarrow> store \<Rightarrow> player_rating option" where
  "getPlayerRating pid mode s =
     (case filter (\<lambda>r. playerId r = pid \<and> gameMode r = mode) (player_ratings s) of
        [] \<Rightarrow> None
      | r # _ \<Rightarrow> Some r)"

definition new_rating_row :: "string \<Rightarrow> string \<Rightarrow> int \<Rightarrow> player_rating" where
  "new_rating_row pid mode now =
     \<lparr>playerId = pid, gameMode = mode, rating = 1000, gamesPlayed = 0,
      wins = 0, losses = 0, draws = 0, lastPlayed = Some now, peakRating = 1000\<rparr>"

definition getOrCreatePlayerRating ::
  "string \<Rightarrow> string \<Rightarrow> int \<Rightarrow> store \<Rightarrow> store \<times> player_rating" where
  "getOrCreatePlayerRating pid mode now s =
     (case getPlayerRating pid mode s of
        Some r \<Rightarrow> (s, r)
      | None \<Rightarrow>
          (s\<lparr>player_ratings := player_ratings s @ [new_rating_row pid mode now]\<rparr>,
           new_rating_row pid mode now))"

text \<open>
  The \<open>UPDATE player_ratings SET ... WHERE player_id = pid AND game_mode = mode\<close> of
  \<open>updateRatings\<close>: every column is set from the row \<open>old\<close> read before, not from the row
  being updated.
\<close>

definition set_rating ::
  "player_rating \<Rightarrow> real \<Rightarrow> bool \<Rightarrow> bool \<Rightarrow> bool \<Rightarrow> int \<Rightarrow> player_rating \<Rightarrow> player_rating" where
  "set_rating old newRating won lost drew now r =
     r\<lparr>rating := newRating,
       gamesPlayed := gamesPlayed old + 1,
       wins := (if won then wins old + 1 else wins old),
       losses := (if lost then losses old + 1 else losses old),
       draws := (if drew then draws old + 1 else draws old),
       lastPlayed := Some now,
       peakRating := Math_max (peakRating old) newRating\<rparr>"

definition update_rating_row ::
  "string \<Rightarrow> string \<Rightarrow> (player_rating \<Rightarrow> player_rating) \<Rightarrow> store \<Rightarrow> store" where
  "update_rating_row pid mode f s =
     s\<lparr>player_ratings :=
         map (\<lambda>r. if playerId r = pid \<and> gameMode r = mode then f r else r) (player_ratings s)\<rparr>"

definition updateRatings ::
  "string \<Rightarrow> string \<Rightarrow> string \<Rightarrow> real \<Rightarrow> int \<Rightarrow> store \<Rightarrow> store \<times> real \<times> real" where
  "updateRatings p1 p2 mode result now s =
     (let (s1, player1Rating) = getOrCreatePlayerRating p1 mode now s;
          (s2, player2Rating) = getOrCreatePlayerRating p2 mode now s1;
          player1Expected = calculateExpectedScore (rating player1Rating) (rating player2Rating);
          player2Expected = calculateExpectedScore (rating player2Rating) (rating player1Rating);
          player1NewRating = calculateNewRating (rating player1Rating) player1Expected result
                               (gamesPlayed player1Rating);
          player2NewRating = calculateNewRating (rating player2Rating) player2Expected
                               (1 - result) (gamesPlayed player2Rating);
          s3 = update_rating_row p1 mode
                 (set_rating player1Rating player1NewRating
                    (result = 1) (result = 0) (result = 1 / 2) now) s2;
          s4 = update_rating_row p2 mode
                 (set_rating player2Rating player2NewRating
                    (result = 0) (result = 1) (result = 1 / 2) now) s3
      in (s4, player1NewRating, player2NewRating))"

section \<open>Queue and matchmaking service\<close>

text \<open>
  \<open>getNextGameNumber\<close> reads the matches by \<open>gameNumber\<close> descending and keeps the first.
\<close>

definition getNextGameNumber :: "store \<Rightarrow> int" where
  "getNextGameNumber s =
     (case take 1 (rev (sort_key gameNumber (matches s))) of
        [] \<Rightarrow> 1
      | lastMatch # _ \<Rightarrow> gameNumber lastMatch + 1)"

text \<open>
  The query of \<open>matchPlayers\<close> is \<open>WHERE game_mode = mode AND status = 'waiting' ORDER BY
  joined_at ASC LIMIT 2\<close>. SQL leaves the order of rows with equal \<open>joined_at\<close> to the
  store. The parameter \<open>tie\<close> ranks the entry ids inside such a tie, so that each order the
  store may return is the result for some \<open>tie\<close>; the code itself names no second sort key.
\<close>

definition queuedPlayers :: "(int \<Rightarrow> int) \<Rightarrow> string \<Rightarrow> store \<Rightarrow> queue_entry list" where
  "queuedPlayers tie mode s =
     take 2 (sort_key (\<lambda>e. (joinedAt e, tie (entry_id e)))
       (filter (\<lambda>e. entry_gameMode e = mode \<and> entry_status e = Waiting) (queue_entries s)))"

definition mark_matched :: "int \<Rightarrow> int \<Rightarrow> int \<Rightarrow> store \<Rightarrow> store" where
  "mark_matched id1 id2 mid s =
     s\<lparr>queue_entries :=
         map (\<lambda>e. if entry_id e = id1 \<or> entry_id e = id2
                   then e\<lparr>entry_status := Matched, matchId := Some mid\<rparr> else e)
           (queue_entries s)\<rparr>"

definition in_game_state :: "string \<Rightarrow> int \<Rightarrow> player_state" where
  "in_game_state opponent now =
     \<lparr>status = In_game, queueStartTime = None,
      currentMatch = Some \<lparr>opponentId = opponent, startTime = now\<rparr>\<rparr>"

definition idle_state :: player_state where
  "idle_state = \<lparr>status = Idle, queueStartTime = None, currentMatch = None\<rparr>"

definition queuing_state :: "int \<Rightarrow> player_state" where
  "queuing_state now = \<lparr>status = Queuing, queueStartTime = Some now, currentMatch = None\<rparr>"

definition matchPlayers ::
  "(int \<Rightarrow> int) \<Rightarrow> bool \<Rightarrow> string \<Rightarrow> int \<Rightarrow> store \<Rightarrow> store \<times> (error + match_row option)" where
  "matchPlayers tie redis_ok mode now s =
     (case queuedPlayers tie mode s of
        player1 # player2 # _ \<Rightarrow>
          (let match = \<lparr>match_id = next_match_id s, match_gameMode = mode,
                 player1Id = entry_playerId player1, player2Id = entry_playerId player2,
                 startedAt = now, completedAt = None, winnerId = None,
                 match_status = In_progress, gameNumber = getNextGameNumber s\<rparr>;
               s1 = s\<lparr>matches := matches s @ [match], next_match_id := next_match_id s + 1\<rparr>;
               s2 = mark_matched (entry_id player1) (entry_id player2) (match_id match) s1;
               player1State = in_game_state (entry_playerId player2) now;
               player2State = in_game_state (entry_playerId player1) now
           in if \<not> redis_ok then (s2, Inl Redis_unavailable)
              else
                (let s3 = redis_set (PLAYER_STATE_KEY (entry_playerId player1)) player1State s2;
                     s4 = redis_set (PLAYER_STATE_KEY (entry_playerId player2)) player2State s3;
                     s5 = emit (state_change (entry_playerId player1)) player1State s4;
                     s6 = emit (state_change (entry_playerId player2)) player2State s5
                 in (s6, Inr (Some match))))
      | _ \<Rightarrow> (s, Inr None))"

definition joinQueue ::
  "(int \<Rightarrow> int) \<Rightarrow> bool \<Rightarrow> string \<Rightarrow> string \<Rightarrow> int \<Rightarrow> store \<Rightarrow> store \<times> (error + queue_entry)" where
  "joinQueue tie redis_ok pid mode now s =
     (case take 1 (filter (\<lambda>e. entry_playerId e = pid \<and> entry_status e = Waiting)
                     (queue_entries s)) of
        existing # _ \<Rightarrow> (s, Inr existing)
      | [] \<Rightarrow>
          (let entry = \<lparr>entry_id = next_entry_id s, entry_playerId = pid, entry_gameMode = mode,
                 joinedAt = now, entry_status = Waiting, matchId = None\<rparr>;
               s1 = s\<lparr>queue_entries := queue_entries s @ [entry],
                      next_entry_id := next_entry_id s + 1\<rparr>
           in if \<not> redis_ok then (s1, Inl Redis_unavailable)
              else
                (let s2 = redis_set (PLAYER_STATE_KEY pid) (queuing_state now) s1;
                     s3 = emit (state_change pid) (queuing_state now) s2
                 in case matchPlayers tie redis_ok mode now s3 of
                      (s4, Inl e) \<Rightarrow> (s4, Inl e)
                    | (s4, Inr _) \<Rightarrow> (s4, Inr entry))))"

definition leaveQueue :: "bool \<Rightarrow> string \<Rightarrow> store \<Rightarrow> store \<times> (error + bool)" where
  "leaveQueue redis_ok pid s =
     (let hit = (\<lambda>e. entry_playerId e = pid \<and> entry_status e = Waiting);
          s1 = s\<lparr>queue_entries :=
                   map (\<lambda>e. if hit e then e\<lparr>entry_status := Cancelled\<rparr> else e) (queue_entries s)\<rparr>
      in case filter hit (queue_entries s) of
           [] \<Rightarrow> (s1, Inr False)
         | _ # _ \<Rightarrow>
             if \<not> redis_ok then (s1, Inl Redis_unavailable)
             else (emit (state_change pid) idle_state
                     (redis_set (PLAYER_STATE_KEY pid) idle_state s1), Inr True))"

text \<open>
  \<open>completeMatch\<close> updates the rows whose id is \<open>matchId\<close> whatever their status. The
  store refuses the update, and the call throws with nothing changed, when a row is to
  be updated and the winner is an id without a row in the \<open>user\<close> table (the foreign key
  of \<open>winner_id\<close>). The call throws "not found" when the update returns no row; otherwise
  it resets both player states and then updates the ratings with the result seen from
  player 1.
\<close>

definition complete_row :: "string option \<Rightarrow> int \<Rightarrow> match_row \<Rightarrow> match_row" where
  "complete_row winner now m =
     m\<lparr>completedAt := Some now, winnerId := winner, match_status := Completed\<rparr>"

definition match_result :: "string option \<Rightarrow> match_row \<Rightarrow> real" where
  "match_result winner m =
     (if winner = Some (player1Id m) then 1
      else if winner = Some (player2Id m) then 0
      else 1 / 2)"

definition completeMatch ::
  "bool \<Rightarrow> int \<Rightarrow> string option \<Rightarrow> int \<Rightarrow> store \<Rightarrow> store \<times> (error + match_row)" where
  "completeMatch redis_ok mid winner now s =
     (let hit = (\<lambda>m. match_id m = mid);
          s1 = s\<lparr>matches :=
                   map (\<lambda>m. if hit m then complete_row winner now m else m) (matches s)\<rparr>
      in if filter hit (matches s) \<noteq> [] \<and> \<not> winner_references_user s winner
         then (s, Inl Foreign_key_violation)
         else
           (case filter hit (matches s1) of
              [] \<Rightarrow> (s1, Inl (Match_not_found mid))
            | match # _ \<Rightarrow>
                if \<not> redis_ok then (s1, Inl Redis_unavailable)
                else
                  (let s2 = redis_set (PLAYER_STATE_KEY (player1Id match)) idle_state s1;
                       s3 = redis_set (PLAYER_STATE_KEY (player2Id match)) idle_state s2;
                       s4 = emit (state_change (player1Id match)) idle_state s3;
                       s5 = emit (state_change (player2Id match)) idle_state s4;
                       result = match_result winner match;
                       (s6, _) = updateRatings (player1Id match) (player2Id match)
                                   (match_gameMode match) result now s5
                   in (s6, Inr match))))"

section \<open>Invariants of the rating table\<close>

text \<open>
  The two equations the data model states for a rating row, and their extension to the
  whole table.
\<close>

definition peak_ok :: "player_rating \<Rightarrow> bool" where
  "peak_ok r \<longleftrightarrow> rating r \<le> peakRating r"

definition counts_ok :: "player_rating \<Rightarrow> bool" where
  "counts_ok r \<longleftrightarrow> gamesPlayed r = wins r + losses r + draws r"

definition peak_invariant :: "store \<Rightarrow> bool" where
  "peak_invariant s = list_all peak_ok (player_ratings s)"

definition counts_invariant :: "store \<Rightarrow> bool" where
  "counts_invariant s = list_all counts_ok (player_ratings s)"

section \<open>Example states\<close>

text \<open>
  A store with the users alice, bob and carol in which alice and bob, neither of them
  rated yet, have been paired into match 1 of mode standard.
\<close>

definition demo_match :: match_row where
  "demo_match =
     \<lparr>match_id = 1, match_gameMode = ''standard'', player1Id = ''alice'', player2Id = ''bob'',
      startedAt = 20, completedAt = None, winnerId = None, match_status = In_progress,
      gameNumber = 1\<rparr>"

definition demo_store :: store where
  "demo_store =
     \<lparr>users = [''alice'', ''bob'', ''carol''],
      queue_entries =
        [\<lparr>entry_id = 1, entry_playerId = ''alice'', entry_gameMode = ''standard'', joinedAt = 10,
          entry_status = Matched, matchId = Some 1\<rparr>,
         \<lparr>entry_id = 2, entry_playerId = ''bob'', entry_gameMode = ''standard'', joinedAt = 20,
          entry_status = Matched, matchId = Some 1\<rparr>],
      matches = [demo_match],
      player_ratings = [],
      next_entry_id = 3,
      next_match_id = 2,
      redis_states = Map.empty,
      emitted = []\<rparr>"

text \<open>
  The same store after match 1 has been completed at time 30 with alice as the winner,
  and after a second call for the same match at time 40 that names bob the winner.
\<close>

definition demo_completed :: store where
  "demo_completed = fst (completeMatch True 1 (Some ''alice'') 30 demo_store)"

definition demo_completed_again :: store where
  "demo_completed_again = fst (completeMatch True 1 (Some ''bob'') 40 demo_completed)"

section \<open>The pairing order the specification names\<close>

text \<open>
  The specification orders the waiting entries by \<open>joinedAt\<close> and breaks ties by entry
  id. This is that selection, written from the specification's words, to be compared with
  \<open>queuedPlayers\<close>.
\<close>

definition spec_queuedPlayers :: "string \<Rightarrow> store \<Rightarrow> queue_entry list" where
  "spec_queuedPlayers mode s =
     take 2 (sort_key (\<lambda>e. (joinedAt e, entry_id e))
       (filter (\<lambda>e. entry_gameMode e = mode \<and> entry_status e = Waiting) (queue_entries s)))"

text \<open>
  The match the specification describes for two paired entries: in progress, between the
  two players, with the next match id and with game number one more than the largest
  existing game number, or 1 when there is no match.
\<close>

definition paired_match :: "string \<Rightarrow> queue_entry \<Rightarrow> queue_entry \<Rightarrow> int \<Rightarrow> store \<Rightarrow> match_row" where
  "paired_match mode p1 p2 now s =
     \<lparr>match_id = next_match_id s, match_gameMode = mode,
      player1Id = entry_playerId p1, player2Id = entry_playerId p2, startedAt = now,
      completedAt = None, winnerId = None, match_status = In_progress,
      gameNumber = (if matches s = [] then 1 else Max (gameNumber ` set (matches s)) + 1)\<rparr>"

definition waiting_in :: "string \<Rightarrow> store \<Rightarrow> queue_entry list" where
  "waiting_in mode s =
     filter (\<lambda>e. entry_gameMode e = mode \<and> entry_status e = Waiting) (queue_entries s)"

definition waiting_of :: "string \<Rightarrow> store \<Rightarrow> queue_entry list" where
  "waiting_of pid s =
     filter (\<lambda>e. entry_playerId e = pid \<and> entry_status e = Waiting) (queue_entries s)"

text \<open>
  Three players who joined mode standard at the same millisecond, and three who joined
  one after the other, stored in another order than they joined.
\<close>

definition waiting_entry :: "int \<Rightarrow> string \<Rightarrow> int \<Rightarrow> queue_entry" where
  "waiting_entry i pid t =
     \<lparr>entry_id = i, entry_playerId = pid, entry_gameMode = ''standard'', joinedAt = t,
      entry_status = Waiting, matchId = None\<rparr>"

definition demo_tied :: store where
  "demo_tied =
     \<lparr>users = [''alice'', ''bob'', ''carol''],
      queue_entries =
        [waiting_entry 1 ''alice'' 10, waiting_entry 2 ''bob'' 10, waiting_entry 3 ''carol'' 10],
      matches = [],
      player_ratings = [],
      next_entry_id = 4,
      next_match_id = 1,
      redis_states = Map.empty,
      emitted = []\<rparr>"

definition demo_queue :: store where
  "demo_queue =
     \<lparr>users = [''alice'', ''bob'', ''carol''],
      queue_entries =
        [waiting_entry 1 ''carol'' 30, waiting_entry 2 ''alice'' 10, waiting_entry 3 ''bob'' 20],
      matches = [demo_match\<lparr>match_status := Completed, gameNumber := 7\<rparr>],
      player_ratings = [],
      next_entry_id = 4,
      next_match_id = 2,
      redis_states = Map.empty,
      emitted = []\<rparr>"

text \<open>
  A store in which bob alone waits in mode standard, and the same store after alice has
  joined that mode at time 20.
\<close>

definition demo_waiting :: store where
  "demo_waiting =
     \<lparr>users = [''alice'', ''bob'', ''carol''],
      queue_entries = [waiting_entry 1 ''bob'' 10],
      matches = [],
      player_ratings = [],
      next_entry_id = 2,
      next_match_id = 1,
      redis_states = Map.empty,
      emitted = []\<rparr>"

definition demo_joined :: store where
  "demo_joined = fst (joinQueue id True ''alice'' ''standard'' 20 demo_waiting)"

section \<open>Intermediate states of joinQueue\<close>

text \<open>
  The row \<open>joinQueue\<close> inserts for a player without a waiting entry, and the store after
  the insertion and the player state update, on which \<open>joinQueue\<close> then calls
  \<open>matchPlayers\<close>.
\<close>

definition joined_entry :: "string \<Rightarrow> string \<Rightarrow> int \<Rightarrow> store \<Rightarrow> queue_entry" where
  "joined_entry pid mode now s =
     \<lparr>entry_id = next_entry_id s, entry_playerId = pid, entry_gameMode = mode,
      joinedAt = now, entry_status = Waiting, matchId = None\<rparr>"

definition enqueued :: "string \<Rightarrow> string \<Rightarrow> int \<Rightarrow> store \<Rightarrow> store" where
  "enqueued pid mode now s =
     emit (state_change pid) (queuing_state now)
       (redis_set (PLAYER_STATE_KEY pid) (queuing_state now)
         (s\<lparr>queue_entries := queue_entries s @ [joined_entry pid mode now s],
            next_entry_id := next_entry_id s + 1\<rparr>))"

section \<open>Leaderboard cache\<close>

text \<open>
  Modelled from the spec: the type \<open>LeaderboardEntry\<close> is declared in the ranking source's
  module, which is not among the sources; an entry has the fields the specification
  lists. The leaderboard service reads \<open>id\<close> and \<open>mmr\<close> and passes the rest through.
\<close>

record leaderboard_entry =
  lb_id :: string
  lb_name :: string
  mmr :: real
  lb_wins :: int
  lb_losses :: int
  lb_draws :: int
  totalgames :: int
  peak_mmr :: real
  rank :: int
  winrate :: real
  lb_gameMode :: string

record 'a response =
  data :: 'a
  isStale :: bool

text \<open>
  A row of the \<open>leaderboardSnapshots\<close> table, and the JSON object stored as the value of a
  \<open>metadata\<close> row (\<open>data\<close>, \<open>timestamp\<close> and, for a snapshot, \<open>queue_id\<close>). Timestamps
  are ISO strings here, as in the code.
\<close>

record snapshot_row =
  channelId :: string
  snapshot_timestamp :: string
  snapshot_data :: "leaderboard_entry list"

record metadata_value =
  md_data :: "leaderboard_entry list"
  md_timestamp :: string
  md_queue_id :: "string option"

text \<open>
  What the leaderboard service reads and writes: the Redis strings (the raw leaderboard as
  JSON), sorted sets and hashes by key, and the two tables of the durable store. A key that
  has expired is a key that is absent.

  The Redis client module is not among the sources; the calls the code makes (a
  pipeline with \<open>setex\<close>, \<open>zadd\<close> with score and member as arguments, \<open>hset\<close> with an
  object) are those of ioredis. There \<open>get\<close> answers an absent key with null, which
  the test \<open>if (cached)\<close> takes as false, and \<open>hgetall\<close> answers an absent key with the
  empty object, which the test \<open>if (userData)\<close> takes as true. The other implementation
  of \<open>getUserRank\<close> among the sources tests \<open>Object.keys(userData).length > 0\<close> for
  that reason.
\<close>

record lb_store =
  redis_strings :: "string \<rightharpoonup> leaderboard_entry list"
  redis_zsets :: "string \<rightharpoonup> (string \<rightharpoonup> real)"
  redis_hashes :: "string \<rightharpoonup> leaderboard_entry \<times> string"
  leaderboardSnapshots :: "snapshot_row list"
  metadata :: "string \<rightharpoonup> metadata_value"

text \<open>
  What the collaborators do during one call, one field for each place where the code
  awaits one of them: whether the cache read (\<open>redis.get\<close>, \<open>redis.hgetall\<close>) answers,
  what the ranking source returns for a queue (\<open>None\<close> when it throws), whether the Redis
  pipeline executes, whether the inserts into the durable store succeed, whether the
  backup read in the handler of \<open>refreshLeaderboard\<close> answers, whether the backup read of
  \<open>getLeaderboard\<close> and \<open>getUserRank\<close> answers, and the time of the call.
\<close>

record lb_env =
  cache_read_ok :: bool
  get_leaderboard :: "string \<Rightarrow> leaderboard_entry list option"
  cache_write_ok :: bool
  store_write_ok :: bool
  refresh_backup_read_ok :: bool
  backup_read_ok :: bool
  now_iso :: string

definition getZSetKey :: "string \<Rightarrow> string" where
  "getZSetKey queue_id = ''zset:leaderboard:'' @ queue_id"

definition getRawKey :: "string \<Rightarrow> string" where
  "getRawKey queue_id = ''raw:leaderboard:'' @ queue_id"

definition getUserKey :: "string \<Rightarrow> string \<Rightarrow> string" where
  "getUserKey user_id queue_id = ''user:'' @ user_id @ '':'' @ queue_id"

definition getBackupKey :: "string \<Rightarrow> string" where
  "getBackupKey queue_id = ''backup_leaderboard_'' @ queue_id"

definition getSnapshotKey :: "string \<Rightarrow> string \<Rightarrow> string" where
  "getSnapshotKey queue_id timestamp = ''snapshot_leaderboard_'' @ queue_id @ ''_'' @ timestamp"

definition replace_colon_dot :: "string \<Rightarrow> string" where
  "replace_colon_dot t = map (\<lambda>c. if c = CHR '':'' \<or> c = CHR ''.'' then CHR ''_'' else c) t"

text \<open>
  The pipeline of \<open>refreshLeaderboard\<close>: the raw leaderboard under the raw key, the
  sorted set rebuilt from the entries, and one hash for each entry with the queue id
  added. Nothing is written when the pipeline does not execute.
\<close>

definition pipeline_exec :: "string \<Rightarrow> leaderboard_entry list \<Rightarrow> lb_store \<Rightarrow> lb_store" where
  "pipeline_exec queue_id fresh st =
     st\<lparr>redis_strings := (redis_strings st)(getRawKey queue_id \<mapsto> fresh),
        redis_zsets := (redis_zsets st)(getZSetKey queue_id \<mapsto>
          fold (\<lambda>entry z. z(lb_id entry \<mapsto> mmr entry)) fresh Map.empty),
        redis_hashes :=
          fold (\<lambda>entry h. h(getUserKey (lb_id entry) queue_id \<mapsto> (entry, queue_id))) fresh
            (redis_hashes st)\<rparr>"

text \<open>
  The body of the \<open>try\<close> of \<open>refreshLeaderboard\<close>. Each step that throws leaves the
  writes made before it in place. The insert of the snapshot row of \<open>metadata\<close> has no
  conflict clause, so it throws when the key exists.
\<close>

definition refresh_try :: "lb_env \<Rightarrow> string \<Rightarrow> lb_store \<Rightarrow> lb_store \<times> (error + leaderboard_entry list)" where
  "refresh_try env queue_id st =
     (case get_leaderboard env queue_id of
        None \<Rightarrow> (st, Inl Upstream_unavailable)
      | Some fresh \<Rightarrow>
          (let timestamp = now_iso env;
               snapshotKey = getSnapshotKey queue_id (replace_colon_dot timestamp);
               backupKey = getBackupKey queue_id
           in if \<not> cache_write_ok env then (st, Inl Redis_unavailable)
              else
                (let st1 = pipeline_exec queue_id fresh st
                 in if \<not> store_write_ok env then (st1, Inl Store_unavailable)
                    else
                      (let st2 = st1\<lparr>leaderboardSnapshots := leaderboardSnapshots st1 @
                                 [\<lparr>channelId = queue_id, snapshot_timestamp = timestamp,
                                   snapshot_data = fresh\<rparr>]\<rparr>
                       in if metadata st2 snapshotKey \<noteq> None then (st2, Inl Store_unavailable)
                          else
                            (let st3 = st2\<lparr>metadata := (metadata st2)(snapshotKey \<mapsto>
                                       \<lparr>md_data = fresh, md_timestamp = timestamp,
                                        md_queue_id = Some queue_id\<rparr>)\<rparr>;
                                 st4 = st3\<lparr>metadata := (metadata st3)(backupKey \<mapsto>
                                       \<lparr>md_data = fresh, md_timestamp = timestamp,
                                        md_queue_id = None\<rparr>)\<rparr>
                             in (st4, Inr fresh))))))"

text \<open>
  The fallback both \<open>refreshLeaderboard\<close> and \<open>getLeaderboard\<close> run in their handler: read
  the backup row of the queue; the read itself may throw.
\<close>

definition backup_fallback ::
  "bool \<Rightarrow> string \<Rightarrow> lb_store \<Rightarrow> error + leaderboard_entry list response" where
  "backup_fallback read_ok queue_id st =
     (if \<not> read_ok then Inl Store_unavailable
      else case metadata st (getBackupKey queue_id) of
             Some backup \<Rightarrow> Inr \<lparr>data = md_data backup, isStale = True\<rparr>
           | None \<Rightarrow> Inr \<lparr>data = [], isStale = True\<rparr>)"

definition refreshLeaderboard ::
  "lb_env \<Rightarrow> string \<Rightarrow> lb_store \<Rightarrow> lb_store \<times> (error + leaderboard_entry list response)" where
  "refreshLeaderboard env queue_id st =
     (case refresh_try env queue_id st of
        (st', Inr fresh) \<Rightarrow> (st', Inr \<lparr>data = fresh, isStale = False\<rparr>)
      | (st', Inl _) \<Rightarrow> (st', backup_fallback (refresh_backup_read_ok env) queue_id st'))"

definition getLeaderboard ::
  "lb_env \<Rightarrow> string \<Rightarrow> lb_store \<Rightarrow> lb_store \<times> (error + leaderboard_entry list response)" where
  "getLeaderboard env queue_id st =
     (case (if \<not> cache_read_ok env then (st, Inl Redis_unavailable)
            else case redis_strings st (getRawKey queue_id) of
                   Some cached \<Rightarrow> (st, Inr \<lparr>data = cached, isStale = False\<rparr>)
                 | None \<Rightarrow> refreshLeaderboard env queue_id st) of
        (st', Inr r) \<Rightarrow> (st', Inr r)
      | (st', Inl _) \<Rightarrow> (st', backup_fallback (backup_read_ok env) queue_id st'))"

text \<open>
  The reply of \<open>hgetall\<close>: the fields of the hash, which are those of an entry and the
  queue id, or no field at all for an absent key. The reply is never null; \<open>Some\<close> marks
  a reply that is not null.
\<close>

datatype user_hash = Empty_hash | Entry_hash leaderboard_entry string

definition hgetall :: "lb_store \<Rightarrow> string \<Rightarrow> user_hash option" where
  "hgetall st key =
     Some (case redis_hashes st key of
             None \<Rightarrow> Empty_hash
           | Some (entry, queue_id) \<Rightarrow> Entry_hash entry queue_id)"

text \<open>
  The data of a user rank response: an entry, or the object \<open>getUserRank\<close> builds from
  an empty hash, whose \<open>mmr\<close> is \<open>Number(undefined)\<close> and which has no other field.
\<close>

datatype rank_data = Entry leaderboard_entry | Empty_entry

definition entry_of_hash :: "user_hash \<Rightarrow> rank_data" where
  "entry_of_hash userData =
     (case userData of Empty_hash \<Rightarrow> Empty_entry | Entry_hash entry _ \<Rightarrow> Entry entry)"

text \<open>
  \<open>getUserRank\<close> catches everything and returns null (\<open>None\<close>) then. An error of the
  nested refresh is caught on its own and leads on to the backup read.
\<close>

definition find_user :: "string \<Rightarrow> leaderboard_entry list \<Rightarrow> leaderboard_entry option" where
  "find_user user_id entries = List.find (\<lambda>entry. lb_id entry = user_id) entries"

definition getUserRank ::
  "lb_env \<Rightarrow> string \<Rightarrow> string \<Rightarrow> lb_store \<Rightarrow> lb_store \<times> rank_data response option" where
  "getUserRank env queue_id user_id st =
     (if \<not> cache_read_ok env then (st, None)
      else case hgetall st (getUserKey user_id queue_id) of
             Some userData \<Rightarrow> (st, Some \<lparr>data = entry_of_hash userData, isStale = False\<rparr>)
           | None \<Rightarrow>
               (let (st1, refreshed) = refreshLeaderboard env queue_id st;
                    userEntry = (case refreshed of
                                   Inr r \<Rightarrow> find_user user_id (data r)
                                 | Inl _ \<Rightarrow> None)
                in case userEntry of
                     Some entry \<Rightarrow> (st1, Some \<lparr>data = Entry entry, isStale = False\<rparr>)
                   | None \<Rightarrow>
                       if \<not> backup_read_ok env then (st1, None)
                       else (case metadata st1 (getBackupKey queue_id) of
                               Some backup \<Rightarrow>
                                 (case find_user user_id (md_data backup) of
                                    Some entry \<Rightarrow>
                                      (st1, Some \<lparr>data = Entry entry, isStale = True\<rparr>)
                                  | None \<Rightarrow> (st1, None))
                             | None \<Rightarrow> (st1, None))))"

section \<open>Example leaderboard states\<close>

text \<open>
  Entries for alice and bob, a store with nothing cached and no backup, a store whose
  backup row for the queue ranked holds alice's entry, and environments in which
  everything answers, in which only the cache read throws, in which only the ranking
  source throws, and in which every collaborator throws.
\<close>

definition demo_entry :: "string \<Rightarrow> real \<Rightarrow> int \<Rightarrow> leaderboard_entry" where
  "demo_entry uid m r =
     \<lparr>lb_id = uid, lb_name = uid, mmr = m, lb_wins = 1, lb_losses = 0, lb_draws = 0,
      totalgames = 1, peak_mmr = m, rank = r, winrate = 1, lb_gameMode = ''ranked''\<rparr>"

definition lb_empty :: lb_store where
  "lb_empty =
     \<lparr>redis_strings = Map.empty, redis_zsets = Map.empty, redis_hashes = Map.empty,
      leaderboardSnapshots = [], metadata = Map.empty\<rparr>"

definition lb_backed_up :: lb_store where
  "lb_backed_up =
     lb_empty\<lparr>metadata := [getBackupKey ''ranked'' \<mapsto>
       \<lparr>md_data = [demo_entry ''alice'' 1032 1], md_timestamp = ''2025-01-01T00:00:00.000Z'',
        md_queue_id = None\<rparr>]\<rparr>"

definition env_up :: lb_env where
  "env_up =
     \<lparr>cache_read_ok = True,
      get_leaderboard = [''ranked'' \<mapsto> [demo_entry ''bob'' 1100 1, demo_entry ''alice'' 1032 2]],
      cache_write_ok = True, store_write_ok = True, refresh_backup_read_ok = True,
      backup_read_ok = True, now_iso = ''2025-01-02T00:00:00.000Z''\<rparr>"

definition env_cache_down :: lb_env where
  "env_cache_down = env_up\<lparr>cache_read_ok := False, cache_write_ok := False\<rparr>"

definition env_upstream_down :: lb_env where
  "env_upstream_down = env_up\<lparr>get_leaderboard := Map.empty\<rparr>"

definition env_all_down :: lb_env where
  "env_all_down =
     \<lparr>cache_read_ok = False, get_leaderboard = Map.empty, cache_write_ok = False,
      store_write_ok = False, refresh_backup_read_ok = False, backup_read_ok = False,
      now_iso = ''2025-01-02T00:00:00.000Z''\<rparr>"

text \<open>
  The data of the backup record of a queue, the empty list when there is no record.
\<close>

definition backup_data :: "string \<Rightarrow> lb_store \<Rightarrow> leaderboard_entry list" where
  "backup_data q st = (case metadata st (getBackupKey q) of Some b \<Rightarrow> md_data b | None \<Rightarrow> [])"

text \<open>
  The store with alice's backup after a refresh in which everything answered.
\<close>

definition lb_refreshed :: lb_store where
  "lb_refreshed = fst (refreshLeaderboard env_up ''ranked'' lb_backed_up)"

section \<open>Properties of the rating engine\<close>

lemma expected_equal_ratings: "calculateExpectedScore a a = 1 / 2"
  by (simp add: calculateExpectedScore_def)


lemma Math_round_int_add: "c \<in> \<int> \<Longrightarrow> Math_round (c + d) = c + of_int \<lfloor>d + 1 / 2\<rfloor>"
proof -
  assume "c \<in> \<int>"
  then obtain z :: int where c: "c = of_int z"
    by (auto elim: Ints_cases)
  have "\<lfloor>of_int z + d + 1 / 2\<rfloor> = z + \<lfloor>d + 1 / 2\<rfloor>"
    by (simp add: add.assoc)
  then show ?thesis
    by (simp add: Math_round_def c)
qed

lemma Math_round_of_int: "Math_round (of_int z) = of_int z"
  by (simp add: Math_round_def)

lemma Math_round_Ints: "Math_round x \<in> \<int>"
  by (simp add: Math_round_def)

text \<open>
  Over the real numbers the two expected scores add up to one. This is a fact about the
  formula; the sum the code computes on doubles is equal to one only up to rounding, and
  nothing is stated here about it.
\<close>

lemma expected_scores_sum_real:
  "calculateExpectedScore a b + calculateExpectedScore b a = 1"
proof -
  define t where "t = 10 powr ((b - a) / 400)"
  have tpos: "0 < t"
    by (simp add: t_def)
  have "(a - b) / 400 = - ((b - a) / 400)"
    by (simp add: field_simps)
  then have inv: "10 powr ((a - b) / 400) = 1 / t"
    by (simp only: t_def powr_minus divide_inverse mult_1)
  have "1 / (1 + t) + 1 / (1 + 1 / t) = 1"
    using tpos by (simp add: field_simps)
  then show ?thesis
    by (simp only: calculateExpectedScore_def inv t_def [symmetric])
qed

lemma calculateNewRating_Ints: "calculateNewRating c e a g \<in> \<int>"
  by (simp add: calculateNewRating_def Math_round_Ints)










section \<open>Lookups in the rating table\<close>

lemma first_of_filter: "(case filter P xs of [] \<Rightarrow> None | r # _ \<Rightarrow> Some r) = List.find P xs"
  by (induction xs) auto

lemma getPlayerRating_find:
  "getPlayerRating pid mode s =
     List.find (\<lambda>r. playerId r = pid \<and> gameMode r = mode) (player_ratings s)"
  by (simp add: getPlayerRating_def first_of_filter)

lemma find_append: "List.find P (xs @ ys) = (case List.find P xs of None \<Rightarrow> List.find P ys | Some x \<Rightarrow> Some x)"
  by (induction xs) auto

lemma find_map_same:
  assumes "\<And>r. P (f r) = P r"
  shows "List.find P (map (\<lambda>r. if P r then f r else r) xs) = map_option f (List.find P xs)"
  using assms by (induction xs) auto

lemma find_map_other:
  assumes "\<And>r. Q r \<Longrightarrow> \<not> P r" and "\<And>r. Q r \<Longrightarrow> \<not> P (f r)"
  shows "List.find P (map (\<lambda>r. if Q r then f r else r) xs) = List.find P xs"
  using assms by (induction xs) auto

lemma set_rating_key [simp]:
  "playerId (set_rating old n w l d now r) = playerId r"
  "gameMode (set_rating old n w l d now r) = gameMode r"
  by (simp_all add: set_rating_def)

lemma getPlayerRating_update_same:
  "getPlayerRating pid mode (update_rating_row pid mode (set_rating old n w l d now) s) =
     map_option (set_rating old n w l d now) (getPlayerRating pid mode s)"
  unfolding getPlayerRating_find update_rating_row_def
  by (simp add: find_map_same)

lemma getPlayerRating_update_other:
  "(pid, mode) \<noteq> (pid', mode') \<Longrightarrow>
   getPlayerRating pid mode (update_rating_row pid' mode' (set_rating old n w l d now) s) =
     getPlayerRating pid mode s"
proof -
  assume ne: "(pid, mode) \<noteq> (pid', mode')"
  let ?P = "\<lambda>r. playerId r = pid \<and> gameMode r = mode"
  let ?Q = "\<lambda>r. playerId r = pid' \<and> gameMode r = mode'"
  have "List.find ?P (map (\<lambda>r. if ?Q r then set_rating old n w l d now r else r) (player_ratings s)) =
        List.find ?P (player_ratings s)"
    by (rule find_map_other) (use ne in auto)
  then show ?thesis
    by (simp add: getPlayerRating_find update_rating_row_def)
qed

lemma getOrCreate_snd:
  "snd (getOrCreatePlayerRating pid mode now s) =
     (case getPlayerRating pid mode s of Some r \<Rightarrow> r | None \<Rightarrow> new_rating_row pid mode now)"
  by (simp add: getOrCreatePlayerRating_def new_rating_row_def Let_def split: option.splits)

lemma getOrCreate_lookup:
  "getPlayerRating p m (fst (getOrCreatePlayerRating pid mode now s)) =
     (case getPlayerRating p m s of Some r \<Rightarrow> Some r
      | None \<Rightarrow> if p = pid \<and> m = mode then Some (new_rating_row pid mode now) else None)"
  by (auto simp add: getOrCreatePlayerRating_def new_rating_row_def Let_def getPlayerRating_find find_append split: option.splits)

lemma getOrCreate_own:
  "getPlayerRating pid mode (fst (getOrCreatePlayerRating pid mode now s)) =
     Some (snd (getOrCreatePlayerRating pid mode now s))"
  by (simp add: getOrCreate_lookup getOrCreate_snd split: option.splits)


lemma updateRatings_fst:
  "fst (updateRatings p1 p2 mode result now s) =
     (let s1 = fst (getOrCreatePlayerRating p1 mode now s);
          r1 = snd (getOrCreatePlayerRating p1 mode now s);
          s2 = fst (getOrCreatePlayerRating p2 mode now s1);
          r2 = snd (getOrCreatePlayerRating p2 mode now s1);
          n1 = calculateNewRating (rating r1) (calculateExpectedScore (rating r1) (rating r2)) result (gamesPlayed r1);
          n2 = calculateNewRating (rating r2) (calculateExpectedScore (rating r2) (rating r1)) (1 - result) (gamesPlayed r2)
      in update_rating_row p2 mode (set_rating r2 n2 (result = 0) (result = 1) (result = 1 / 2) now)
           (update_rating_row p1 mode (set_rating r1 n1 (result = 1) (result = 0) (result = 1 / 2) now) s2))"
  by (simp add: updateRatings_def Let_def split: prod.splits)

lemma getPlayerRating_cong:
  "player_ratings s = player_ratings t \<Longrightarrow> getPlayerRating p m s = getPlayerRating p m t"
  by (simp add: getPlayerRating_def)

lemma getOrCreate_cong:
  assumes "player_ratings s = player_ratings t"
  shows "player_ratings (fst (getOrCreatePlayerRating p m now s)) =
         player_ratings (fst (getOrCreatePlayerRating p m now t))"
    and "snd (getOrCreatePlayerRating p m now s) = snd (getOrCreatePlayerRating p m now t)"
  using assms getPlayerRating_cong [OF assms, of p m]
  by (simp_all add: getOrCreatePlayerRating_def split: option.splits)

lemma update_rating_row_cong:
  "player_ratings s = player_ratings t \<Longrightarrow>
   player_ratings (update_rating_row p m f s) = player_ratings (update_rating_row p m f t)"
  by (simp add: update_rating_row_def)

lemma updateRatings_cong:
  assumes "player_ratings s = player_ratings t"
  shows "player_ratings (fst (updateRatings p1 p2 mode result now s)) =
         player_ratings (fst (updateRatings p1 p2 mode result now t))"
proof -
  note a = getOrCreate_cong [OF assms, of p1 mode now]
  note b = getOrCreate_cong [OF a(1), of p2 mode now]
  show ?thesis
    unfolding updateRatings_fst Let_def a(2) b(2)
    by (intro update_rating_row_cong b(1))
qed

lemma getOrCreate_frame:
  "users (fst (getOrCreatePlayerRating p m now s)) = users s"
  "queue_entries (fst (getOrCreatePlayerRating p m now s)) = queue_entries s"
  "matches (fst (getOrCreatePlayerRating p m now s)) = matches s"
  "next_entry_id (fst (getOrCreatePlayerRating p m now s)) = next_entry_id s"
  "next_match_id (fst (getOrCreatePlayerRating p m now s)) = next_match_id s"
  "redis_states (fst (getOrCreatePlayerRating p m now s)) = redis_states s"
  "emitted (fst (getOrCreatePlayerRating p m now s)) = emitted s"
  by (simp_all add: getOrCreatePlayerRating_def split: option.splits)

lemma updateRatings_frame:
  "users (fst (updateRatings p1 p2 mode result now s)) = users s"
  "queue_entries (fst (updateRatings p1 p2 mode result now s)) = queue_entries s"
  "matches (fst (updateRatings p1 p2 mode result now s)) = matches s"
  "next_entry_id (fst (updateRatings p1 p2 mode result now s)) = next_entry_id s"
  "next_match_id (fst (updateRatings p1 p2 mode result now s)) = next_match_id s"
  "redis_states (fst (updateRatings p1 p2 mode result now s)) = redis_states s"
  "emitted (fst (updateRatings p1 p2 mode result now s)) = emitted s"
  by (simp_all add: updateRatings_fst Let_def update_rating_row_def getOrCreate_frame)

section \<open>Completing a match\<close>

lemma filter_primary_key:
  "distinct (map k xs) \<Longrightarrow> x \<in> set xs \<Longrightarrow> filter (\<lambda>y. k y = k x) xs = [x]"
proof (induction xs)
  case Nil
  then show ?case by simp
next
  case (Cons a xs)
  show ?case
  proof (cases "a = x")
    case True
    have "k x \<notin> set (map k xs)"
      using Cons.prems(1) True by simp
    then have "\<forall>y\<in>set xs. k y \<noteq> k x"
      by (metis image_eqI list.set_map)
    then have "filter (\<lambda>y. k y = k x) xs = []"
      by (simp add: filter_empty_conv)
    then show ?thesis using True by simp
  next
    case False
    then have "x \<in> set xs" using Cons.prems(2) by simp
    moreover have "k a \<noteq> k x"
      using Cons.prems(1) \<open>x \<in> set xs\<close> by auto
    ultimately show ?thesis using Cons by simp
  qed
qed

lemma complete_row_sel:
  "match_id (complete_row winner now m) = match_id m"
  "match_gameMode (complete_row winner now m) = match_gameMode m"
  "player1Id (complete_row winner now m) = player1Id m"
  "player2Id (complete_row winner now m) = player2Id m"
  "startedAt (complete_row winner now m) = startedAt m"
  "gameNumber (complete_row winner now m) = gameNumber m"
  "completedAt (complete_row winner now m) = Some now"
  "winnerId (complete_row winner now m) = winner"
  "match_status (complete_row winner now m) = Completed"
  by (simp_all add: complete_row_def)

lemma completeMatch_missing:
  assumes "\<forall>m\<in>set (matches s). match_id m \<noteq> mid"
  shows "completeMatch redis_ok mid winner now s = (s, Inl (Match_not_found mid))"
proof -
  have a: "map (\<lambda>m. if match_id m = mid then complete_row winner now m else m) (matches s) = matches s"
    using assms by (simp add: map_idI)
  have b: "filter (\<lambda>m. match_id m = mid) (matches s) = []"
    using assms by (simp add: filter_empty_conv)
  show ?thesis
    by (simp add: completeMatch_def Let_def a b)
qed

lemma completeMatch_refused:
  assumes "m \<in> set (matches s)" and "match_id m = mid"
    and "\<not> winner_references_user s winner"
  shows "completeMatch redis_ok mid winner now s = (s, Inl Foreign_key_violation)"
proof -
  have "filter (\<lambda>x. match_id x = mid) (matches s) \<noteq> []"
    using assms(1,2) by (auto simp add: filter_empty_conv)
  then show ?thesis
    using assms(3) by (simp add: completeMatch_def Let_def)
qed

lemma player_is_user:
  assumes "m \<in> set (matches s)"
  shows "winner_references_user s (Some (player1Id m))"
    and "winner_references_user s (Some (player2Id m))"
    and "winner_references_user s None"
  using assms by (simp_all add: winner_references_user_def is_user_def)

lemma completeMatch_found:
  assumes "distinct (map match_id (matches s))" and "m \<in> set (matches s)" and "match_id m = mid"
    and "winner_references_user s winner"
  shows "completeMatch True mid winner now s =
     (fst (updateRatings (player1Id m) (player2Id m) (match_gameMode m) (match_result winner m) now
        (emit (state_change (player2Id m)) idle_state
          (emit (state_change (player1Id m)) idle_state
            (redis_set (PLAYER_STATE_KEY (player2Id m)) idle_state
              (redis_set (PLAYER_STATE_KEY (player1Id m)) idle_state
                (s\<lparr>matches := map (\<lambda>x. if match_id x = mid then complete_row winner now x else x)
                     (matches s)\<rparr>)))))),
      Inr (complete_row winner now m))"
proof -
  have "filter (\<lambda>x. match_id x = mid)
          (map (\<lambda>x. if match_id x = mid then complete_row winner now x else x) (matches s)) =
        map (complete_row winner now) (filter (\<lambda>x. match_id x = mid) (matches s))"
    by (simp add: filter_map comp_def complete_row_sel if_distrib [of match_id] cong: if_cong)
  also have "filter (\<lambda>x. match_id x = mid) (matches s) = [m]"
    using filter_primary_key [OF assms(1,2)] assms(3) by simp
  finally have f: "filter (\<lambda>x. match_id x = mid)
          (map (\<lambda>x. if match_id x = mid then complete_row winner now x else x) (matches s)) =
        [complete_row winner now m]"
    by simp
  have r: "match_result winner (complete_row winner now m) = match_result winner m"
    by (simp add: match_result_def complete_row_sel)
  show ?thesis
    using f r assms(4)
    by (simp add: completeMatch_def Let_def complete_row_sel split: prod.splits)
qed

lemma snd_getOrCreate_other:
  assumes "(p, m) \<noteq> (p', m')"
  shows "snd (getOrCreatePlayerRating p m now (fst (getOrCreatePlayerRating p' m' now' s))) =
         snd (getOrCreatePlayerRating p m now s)"
  using assms by (auto simp add: getOrCreate_snd getOrCreate_lookup split: option.splits)

lemma getOrCreate_keeps:
  "getPlayerRating p m s = Some r \<Longrightarrow>
   getPlayerRating p m (fst (getOrCreatePlayerRating p' m' now s)) = Some r"
  by (simp add: getOrCreate_lookup)

lemma updateRatings_lookup:
  fixes p1 p2 mode :: string and now :: int and s :: store and result :: real
  assumes "p1 \<noteq> p2"
  defines "r1 \<equiv> snd (getOrCreatePlayerRating p1 mode now s)"
    and "r2 \<equiv> snd (getOrCreatePlayerRating p2 mode now s)"
  shows "getPlayerRating p1 mode (fst (updateRatings p1 p2 mode result now s)) =
           Some (set_rating r1
             (calculateNewRating (rating r1) (calculateExpectedScore (rating r1) (rating r2))
                result (gamesPlayed r1))
             (result = 1) (result = 0) (result = 1 / 2) now r1)"
    and "getPlayerRating p2 mode (fst (updateRatings p1 p2 mode result now s)) =
           Some (set_rating r2
             (calculateNewRating (rating r2) (calculateExpectedScore (rating r2) (rating r1))
                (1 - result) (gamesPlayed r2))
             (result = 0) (result = 1) (result = 1 / 2) now r2)"
proof -
  let ?s1 = "fst (getOrCreatePlayerRating p1 mode now s)"
  let ?s2 = "fst (getOrCreatePlayerRating p2 mode now ?s1)"
  have ne: "(p2, mode) \<noteq> (p1, mode)" "(p1, mode) \<noteq> (p2, mode)"
    using assms(1) by auto
  have r2': "snd (getOrCreatePlayerRating p2 mode now ?s1) = r2"
    unfolding r2_def by (rule snd_getOrCreate_other [OF ne(1)])
  have l1: "getPlayerRating p1 mode ?s2 = Some r1"
    unfolding r1_def by (rule getOrCreate_keeps) (rule getOrCreate_own)
  have l2: "getPlayerRating p2 mode ?s2 = Some r2"
    using getOrCreate_own [of p2 mode now ?s1] r2' by simp
  show "getPlayerRating p1 mode (fst (updateRatings p1 p2 mode result now s)) =
           Some (set_rating r1
             (calculateNewRating (rating r1) (calculateExpectedScore (rating r1) (rating r2))
                result (gamesPlayed r1))
             (result = 1) (result = 0) (result = 1 / 2) now r1)"
    unfolding updateRatings_fst Let_def r2' r1_def [symmetric]
    by (simp add: getPlayerRating_update_other [OF ne(2)] getPlayerRating_update_same l1)
  show "getPlayerRating p2 mode (fst (updateRatings p1 p2 mode result now s)) =
           Some (set_rating r2
             (calculateNewRating (rating r2) (calculateExpectedScore (rating r2) (rating r1))
                (1 - result) (gamesPlayed r2))
             (result = 0) (result = 1) (result = 1 / 2) now r2)"
    unfolding updateRatings_fst Let_def r2' r1_def [symmetric]
    by (simp add: getPlayerRating_update_other [OF ne(1)] getPlayerRating_update_same l2)
qed

lemma completeMatch_ratings:
  assumes "distinct (map match_id (matches s))" and "m \<in> set (matches s)" and "match_id m = mid"
    and "winner_references_user s winner"
  shows "player_ratings (fst (completeMatch True mid winner now s)) =
         player_ratings (fst (updateRatings (player1Id m) (player2Id m) (match_gameMode m)
           (match_result winner m) now s))"
  unfolding completeMatch_found [OF assms] fst_conv
  by (rule updateRatings_cong) (simp add: emit_def redis_set_def)

section \<open>First match of two new players\<close>

lemma new_row_first_game:
  "calculateNewRating 1000 (calculateExpectedScore 1000 1000) 1 0 = 1032"
  "calculateNewRating 1000 (calculateExpectedScore 1000 1000) 0 0 = 968"
  by (simp_all add: expected_equal_ratings calculateNewRating_def kFactor_def
      PROVISIONAL_K_FACTOR_def PROVISIONAL_THRESHOLD_def Math_round_def)

lemma snd_getOrCreate_new:
  "getPlayerRating p m s = None \<Longrightarrow>
   snd (getOrCreatePlayerRating p m now s) = new_rating_row p m now"
  by (simp add: getOrCreate_snd)

text \<open>
  C1. Two distinct players without a rating row for the mode of their match: when
  \<open>completeMatch\<close> names player 1 the winner, player 1's row has rating 1032 and peak
  rating 1032, player 2's row has rating 968 and peak rating 1000, and both updates use
  the provisional k-factor 64 of a player with no games. The match is the row with the
  given id (ids are the primary key of the table) and Redis answers during the call.
\<close>

theorem new_players_first_match:
  assumes "distinct (map match_id (matches s))" and "m \<in> set (matches s)"
    and "match_id m = mid"
    and "player1Id m \<noteq> player2Id m"
    and "getPlayerRating (player1Id m) (match_gameMode m) s = None"
    and "getPlayerRating (player2Id m) (match_gameMode m) s = None"
  shows "(let s' = fst (completeMatch True mid (Some (player1Id m)) now s);
              row1 = getPlayerRating (player1Id m) (match_gameMode m) s';
              row2 = getPlayerRating (player2Id m) (match_gameMode m) s'
          in map_option rating row1 = Some 1032
           \<and> map_option peakRating row1 = Some 1032
           \<and> map_option rating row2 = Some 968
           \<and> map_option peakRating row2 = Some 1000
           \<and> kFactor (gamesPlayed (new_rating_row (player1Id m) (match_gameMode m) now)) = 64
           \<and> kFactor (gamesPlayed (new_rating_row (player2Id m) (match_gameMode m) now)) = 64)"
proof -
  let ?p1 = "player1Id m" and ?p2 = "player2Id m" and ?mode = "match_gameMode m"
  let ?s' = "fst (completeMatch True mid (Some ?p1) now s)"
  let ?u = "fst (updateRatings ?p1 ?p2 ?mode 1 now s)"
  have res: "match_result (Some ?p1) m = 1"
    by (simp add: match_result_def)
  have "player_ratings ?s' = player_ratings ?u"
    using completeMatch_ratings [OF assms(1-3) player_is_user(1) [OF assms(2)], of now]
    by (simp only: res)
  then have look: "getPlayerRating p ?mode ?s' = getPlayerRating p ?mode ?u" for p
    by (rule getPlayerRating_cong)
  note r1 = snd_getOrCreate_new [OF assms(5), of now]
  note r2 = snd_getOrCreate_new [OF assms(6), of now]
  have row1: "getPlayerRating ?p1 ?mode ?u =
      Some (set_rating (new_rating_row ?p1 ?mode now) 1032 True False False now
        (new_rating_row ?p1 ?mode now))"
    using updateRatings_lookup(1) [OF assms(4), of ?mode 1 now s]
    by (simp add: r1 r2 new_rating_row_def new_row_first_game)
  have row2: "getPlayerRating ?p2 ?mode ?u =
      Some (set_rating (new_rating_row ?p2 ?mode now) 968 False True False now
        (new_rating_row ?p2 ?mode now))"
    using updateRatings_lookup(2) [OF assms(4), of ?mode 1 now s]
    by (simp add: r1 r2 new_rating_row_def new_row_first_game)
  have k: "kFactor 0 = 64"
    by (simp add: kFactor_def PROVISIONAL_K_FACTOR_def PROVISIONAL_THRESHOLD_def)
  show ?thesis
    unfolding Let_def look row1 row2
    by (simp add: set_rating_def new_rating_row_def Math_max_def k)
qed

lemma demo_facts:
  "distinct (map match_id (matches demo_store))"
  "demo_match \<in> set (matches demo_store)"
  "match_id demo_match = 1"
  "player1Id demo_match = ''alice''"
  "player2Id demo_match = ''bob''"
  "match_gameMode demo_match = ''standard''"
  "getPlayerRating ''alice'' ''standard'' demo_store = None"
  "getPlayerRating ''bob'' ''standard'' demo_store = None"
  by (simp_all add: demo_store_def demo_match_def getPlayerRating_def)

lemma demo_winners:
  "winner_references_user demo_store (Some ''alice'')"
  "winner_references_user demo_store (Some ''bob'')"
  "winner_references_user demo_store (Some ''carol'')"
  "winner_references_user demo_store None"
  "\<not> winner_references_user demo_store (Some ''nobody'')"
  by (simp_all add: winner_references_user_def is_user_def demo_store_def demo_match_def)

theorem new_players_first_match_witness:
  "distinct (map match_id (matches demo_store)) \<and> demo_match \<in> set (matches demo_store)
   \<and> match_id demo_match = 1 \<and> player1Id demo_match \<noteq> player2Id demo_match
   \<and> getPlayerRating (player1Id demo_match) (match_gameMode demo_match) demo_store = None
   \<and> getPlayerRating (player2Id demo_match) (match_gameMode demo_match) demo_store = None
   \<and> map_option rating (getPlayerRating ''alice'' ''standard''
         (fst (completeMatch True 1 (Some ''alice'') 30 demo_store))) = Some 1032
   \<and> map_option rating (getPlayerRating ''bob'' ''standard''
         (fst (completeMatch True 1 (Some ''alice'') 30 demo_store))) = Some 968
   \<and> map_option peakRating (getPlayerRating ''alice'' ''standard''
         (fst (completeMatch True 1 (Some ''alice'') 30 demo_store))) = Some 1032
   \<and> map_option peakRating (getPlayerRating ''bob'' ''standard''
         (fst (completeMatch True 1 (Some ''alice'') 30 demo_store))) = Some 1000"
proof -
  have h4: "player1Id demo_match \<noteq> player2Id demo_match"
    by (simp add: demo_facts)
  have h5: "getPlayerRating (player1Id demo_match) (match_gameMode demo_match) demo_store = None"
    and h6: "getPlayerRating (player2Id demo_match) (match_gameMode demo_match) demo_store = None"
    by (simp_all add: demo_facts)
  show ?thesis
    using new_players_first_match [OF demo_facts(1-3) h4 h5 h6, of 30] h4 h5 h6
    by (simp add: demo_facts Let_def)
qed

section \<open>A winner who is neither player\<close>

text \<open>
  C10, as stated: every winner id other than the two players' ids makes \<open>completeMatch\<close>
  record a draw. \<open>winner_id\<close> is a foreign key to the \<open>user\<close> table: for an id that no
  user has, the store refuses the update, the call throws, and neither the match nor any
  rating row changes, so no draw is counted.
\<close>

theorem unknown_winner_records_nothing:
  "Some ''nobody'' \<noteq> Some (player1Id demo_match)
   \<and> Some ''nobody'' \<noteq> Some (player2Id demo_match)
   \<and> \<not> is_user demo_store ''nobody''
   \<and> completeMatch True 1 (Some ''nobody'') 30 demo_store =
       (demo_store, Inl Foreign_key_violation)
   \<and> getPlayerRating ''alice'' ''standard'' demo_store = None
   \<and> getPlayerRating ''bob'' ''standard'' demo_store = None"
proof -
  have u: "\<not> is_user demo_store ''nobody''"
    by (simp add: is_user_def demo_store_def demo_match_def)
  then have "\<not> winner_references_user demo_store (Some ''nobody'')"
    by (simp add: winner_references_user_def)
  then have "completeMatch True 1 (Some ''nobody'') 30 demo_store =
      (demo_store, Inl Foreign_key_violation)"
    by (rule completeMatch_refused [OF demo_facts(2,3)])
  then show ?thesis
    using u by (simp add: demo_facts)
qed

text \<open>
  C10, amended. When the winner given to \<open>completeMatch\<close> is no winner (null) or the id
  of a user, and is neither player 1 nor player 2 of the match, the result passed to the
  rating update is 0.5: the rating table after the call is the one \<open>updateRatings\<close>
  produces for a draw, and for two distinct players each row has its draws counter
  incremented, wins and losses as before, and the rating \<open>calculateNewRating\<close> gives for
  actual score 0.5. The row a player had before is the stored one, or the default row
  when none was stored.
\<close>

theorem other_winner_counts_as_draw:
  assumes "distinct (map match_id (matches s))" and "m \<in> set (matches s)"
    and "match_id m = mid"
    and "winner \<noteq> Some (player1Id m)" and "winner \<noteq> Some (player2Id m)"
    and "winner_references_user s winner"
  shows "match_result winner m = 1 / 2
    \<and> player_ratings (fst (completeMatch True mid winner now s)) =
        player_ratings (fst (updateRatings (player1Id m) (player2Id m) (match_gameMode m)
          (1 / 2) now s))
    \<and> (player1Id m \<noteq> player2Id m \<longrightarrow>
        (let s' = fst (completeMatch True mid winner now s);
             old1 = snd (getOrCreatePlayerRating (player1Id m) (match_gameMode m) now s);
             old2 = snd (getOrCreatePlayerRating (player2Id m) (match_gameMode m) now s);
             row1 = getPlayerRating (player1Id m) (match_gameMode m) s';
             row2 = getPlayerRating (player2Id m) (match_gameMode m) s'
         in map_option draws row1 = Some (draws old1 + 1)
          \<and> map_option wins row1 = Some (wins old1)
          \<and> map_option losses row1 = Some (losses old1)
          \<and> map_option rating row1 =
              Some (calculateNewRating (rating old1)
                (calculateExpectedScore (rating old1) (rating old2)) (1 / 2) (gamesPlayed old1))
          \<and> map_option draws row2 = Some (draws old2 + 1)
          \<and> map_option wins row2 = Some (wins old2)
          \<and> map_option losses row2 = Some (losses old2)
          \<and> map_option rating row2 =
              Some (calculateNewRating (rating old2)
                (calculateExpectedScore (rating old2) (rating old1)) (1 / 2) (gamesPlayed old2))))"
    (is "?A \<and> ?B \<and> (?C \<longrightarrow> ?D)")
proof -
  let ?p1 = "player1Id m" and ?p2 = "player2Id m" and ?mode = "match_gameMode m"
  let ?s' = "fst (completeMatch True mid winner now s)"
  let ?u = "fst (updateRatings ?p1 ?p2 ?mode (1 / 2) now s)"
  have res: "match_result winner m = 1 / 2"
    using assms(4,5) by (simp add: match_result_def)
  have rows: "player_ratings ?s' = player_ratings ?u"
    using completeMatch_ratings [OF assms(1-3,6), of now] by (simp only: res)
  then have look: "getPlayerRating p ?mode ?s' = getPlayerRating p ?mode ?u" for p
    by (rule getPlayerRating_cong)
  have third: "?C \<longrightarrow> ?D"
  proof
    assume ne: ?C
    show ?D
      unfolding Let_def look updateRatings_lookup [OF ne]
      by (simp add: set_rating_def)
  qed
  show ?thesis
    using res rows third by blast
qed

theorem other_winner_counts_as_draw_witness:
  "distinct (map match_id (matches demo_store)) \<and> demo_match \<in> set (matches demo_store)
   \<and> match_id demo_match = 1
   \<and> Some ''carol'' \<noteq> Some (player1Id demo_match)
   \<and> Some ''carol'' \<noteq> Some (player2Id demo_match)
   \<and> winner_references_user demo_store (Some ''carol'')
   \<and> winner_references_user demo_store None
   \<and> player1Id demo_match \<noteq> player2Id demo_match
   \<and> map_option draws (getPlayerRating ''alice'' ''standard''
         (fst (completeMatch True 1 None 30 demo_store))) = Some 1
   \<and> map_option draws (getPlayerRating ''alice'' ''standard''
         (fst (completeMatch True 1 (Some ''carol'') 30 demo_store))) = Some 1
   \<and> map_option draws (getPlayerRating ''bob'' ''standard''
         (fst (completeMatch True 1 (Some ''carol'') 30 demo_store))) = Some 1
   \<and> map_option wins (getPlayerRating ''alice'' ''standard''
         (fst (completeMatch True 1 (Some ''carol'') 30 demo_store))) = Some 0
   \<and> map_option rating (getPlayerRating ''alice'' ''standard''
         (fst (completeMatch True 1 (Some ''carol'') 30 demo_store))) = Some 1000"
proof -
  have h4: "Some ''carol'' \<noteq> Some (player1Id demo_match)"
    and h5: "Some ''carol'' \<noteq> Some (player2Id demo_match)"
    and h6: "player1Id demo_match \<noteq> player2Id demo_match"
    by (simp_all add: demo_facts)
  have old: "snd (getOrCreatePlayerRating ''alice'' ''standard'' 30 demo_store) =
        new_rating_row ''alice'' ''standard'' 30"
      "snd (getOrCreatePlayerRating ''bob'' ''standard'' 30 demo_store) =
        new_rating_row ''bob'' ''standard'' 30"
    by (simp_all add: snd_getOrCreate_new demo_facts)
  have draw: "calculateNewRating 1000 (calculateExpectedScore 1000 1000) (1 / 2) 0 = 1000"
    by (simp add: expected_equal_ratings calculateNewRating_def Math_round_def)
  have h7: "winner_references_user demo_store (Some ''carol'')"
    and h8: "winner_references_user demo_store None"
    by (simp_all add: winner_references_user_def is_user_def demo_store_def)
  have h9: "None \<noteq> Some (player1Id demo_match)" "None \<noteq> Some (player2Id demo_match)"
    by simp_all
  show ?thesis
    using other_winner_counts_as_draw [OF demo_facts(1-3) h4 h5 h7, of 30]
      other_winner_counts_as_draw [OF demo_facts(1-3) h9 h8, of 30] h4 h5 h6 h7 h8
    by (simp add: demo_facts Let_def old new_rating_row_def draw)
qed

section \<open>Completing a match twice\<close>

lemma completeMatch_matches:
  assumes "distinct (map match_id (matches s))" and "m \<in> set (matches s)" and "match_id m = mid"
    and "winner_references_user s winner"
  shows "matches (fst (completeMatch True mid winner now s)) =
         map (\<lambda>x. if match_id x = mid then complete_row winner now x else x) (matches s)"
  unfolding completeMatch_found [OF assms] fst_conv
  by (simp add: updateRatings_frame emit_def redis_set_def)

lemma completeMatch_result:
  assumes "distinct (map match_id (matches s))" and "m \<in> set (matches s)" and "match_id m = mid"
    and "winner_references_user s winner"
  shows "snd (completeMatch True mid winner now s) = Inr (complete_row winner now m)"
  unfolding completeMatch_found [OF assms] by simp

lemma completeMatch_frame:
  assumes "distinct (map match_id (matches s))" and "m \<in> set (matches s)" and "match_id m = mid"
    and "winner_references_user s winner"
  shows "users (fst (completeMatch True mid winner now s)) = users s"
    and "queue_entries (fst (completeMatch True mid winner now s)) = queue_entries s"
  unfolding completeMatch_found [OF assms] fst_conv
  by (simp_all add: updateRatings_frame emit_def redis_set_def)

lemma demo_completed_matches:
  "matches demo_completed = [complete_row (Some ''alice'') 30 demo_match]"
  unfolding demo_completed_def completeMatch_matches [OF demo_facts(1-3) demo_winners(1)]
  by (simp add: demo_store_def demo_facts)

lemma demo_completed_facts:
  "distinct (map match_id (matches demo_completed))"
  "complete_row (Some ''alice'') 30 demo_match \<in> set (matches demo_completed)"
  "match_id (complete_row (Some ''alice'') 30 demo_match) = 1"
  by (simp_all add: demo_completed_matches complete_row_sel demo_facts)

lemma demo_completed_winners:
  "winner_references_user demo_completed (Some ''alice'')"
  "winner_references_user demo_completed (Some ''bob'')"
  using player_is_user(1,2) [OF demo_completed_facts(2)]
  by (simp_all add: complete_row_sel demo_facts)

lemma demo_completed_unknown:
  "\<not> winner_references_user demo_completed (Some ''nobody'')"
proof -
  have "users demo_completed = users demo_store"
    and "queue_entries demo_completed = queue_entries demo_store"
    unfolding demo_completed_def
    by (rule completeMatch_frame [OF demo_facts(1-3) demo_winners(1)])+
  then show ?thesis
    by (simp add: winner_references_user_def is_user_def demo_completed_matches
        complete_row_sel demo_facts demo_store_def)
qed

lemma demo_completed_rows:
  "getPlayerRating ''alice'' ''standard'' demo_completed =
     Some (set_rating (new_rating_row ''alice'' ''standard'' 30) 1032 True False False 30
        (new_rating_row ''alice'' ''standard'' 30))"
  "getPlayerRating ''bob'' ''standard'' demo_completed =
     Some (set_rating (new_rating_row ''bob'' ''standard'' 30) 968 False True False 30
        (new_rating_row ''bob'' ''standard'' 30))"
proof -
  have ne: "''alice'' \<noteq> ''bob''"
    by simp
  have res: "match_result (Some ''alice'') demo_match = 1"
    by (simp add: match_result_def demo_facts)
  have "player_ratings demo_completed =
      player_ratings (fst (updateRatings ''alice'' ''bob'' ''standard'' 1 30 demo_store))"
    unfolding demo_completed_def
    using completeMatch_ratings [OF demo_facts(1-3) demo_winners(1), of 30]
    by (simp add: demo_facts res)
  then have look: "getPlayerRating p ''standard'' demo_completed =
      getPlayerRating p ''standard'' (fst (updateRatings ''alice'' ''bob'' ''standard'' 1 30 demo_store))" for p
    by (rule getPlayerRating_cong)
  note old = snd_getOrCreate_new [OF demo_facts(7), of 30] snd_getOrCreate_new [OF demo_facts(8), of 30]
  show "getPlayerRating ''alice'' ''standard'' demo_completed =
     Some (set_rating (new_rating_row ''alice'' ''standard'' 30) 1032 True False False 30
        (new_rating_row ''alice'' ''standard'' 30))"
    unfolding look updateRatings_lookup(1) [OF ne] old
    by (simp add: new_rating_row_def new_row_first_game)
  show "getPlayerRating ''bob'' ''standard'' demo_completed =
     Some (set_rating (new_rating_row ''bob'' ''standard'' 30) 968 False True False 30
        (new_rating_row ''bob'' ''standard'' 30))"
    unfolding look updateRatings_lookup(2) [OF ne] old
    by (simp add: new_rating_row_def new_row_first_game)
qed

text \<open>
  C3, as stated: a call of \<open>completeMatch\<close> for a match that is already completed does
  not complete it again, keeps \<open>completedAt\<close> and \<open>winnerId\<close>, and applies no second
  rating update. The update of \<open>completeMatch\<close> selects the row by id alone: after match 1
  was completed at time 30 with alice as the winner (one game, one win for alice), a
  second call at time 40 naming bob stores winner bob and time 40, and alice's row counts
  two games, one win and one loss for the one match.
\<close>

theorem completed_match_completed_again:
  "map match_status (matches demo_completed) = [Completed]
   \<and> map winnerId (matches demo_completed) = [Some ''alice'']
   \<and> map completedAt (matches demo_completed) = [Some 30]
   \<and> map_option gamesPlayed (getPlayerRating ''alice'' ''standard'' demo_completed) = Some 1
   \<and> map_option wins (getPlayerRating ''alice'' ''standard'' demo_completed) = Some 1
   \<and> map_option losses (getPlayerRating ''alice'' ''standard'' demo_completed) = Some 0
   \<and> map winnerId (matches demo_completed_again) = [Some ''bob'']
   \<and> map completedAt (matches demo_completed_again) = [Some 40]
   \<and> map_option gamesPlayed (getPlayerRating ''alice'' ''standard'' demo_completed_again) = Some 2
   \<and> map_option wins (getPlayerRating ''alice'' ''standard'' demo_completed_again) = Some 1
   \<and> map_option losses (getPlayerRating ''alice'' ''standard'' demo_completed_again) = Some 1"
proof -
  let ?m = "complete_row (Some ''alice'') 30 demo_match"
  have ne: "''alice'' \<noteq> ''bob''"
    by simp
  have again: "matches demo_completed_again = [complete_row (Some ''bob'') 40 ?m]"
    unfolding demo_completed_again_def
      completeMatch_matches [OF demo_completed_facts demo_completed_winners(2)]
    by (simp add: demo_completed_matches complete_row_sel demo_facts)
  have res: "match_result (Some ''bob'') ?m = 0"
    by (simp add: match_result_def complete_row_sel demo_facts)
  have "player_ratings demo_completed_again =
      player_ratings (fst (updateRatings ''alice'' ''bob'' ''standard'' 0 40 demo_completed))"
    unfolding demo_completed_again_def
    using completeMatch_ratings [OF demo_completed_facts demo_completed_winners(2), of 40]
    by (simp add: complete_row_sel demo_facts res)
  then have look: "getPlayerRating ''alice'' ''standard'' demo_completed_again =
      getPlayerRating ''alice'' ''standard''
        (fst (updateRatings ''alice'' ''bob'' ''standard'' 0 40 demo_completed))"
    by (rule getPlayerRating_cong)
  have old: "snd (getOrCreatePlayerRating ''alice'' ''standard'' 40 demo_completed) =
      set_rating (new_rating_row ''alice'' ''standard'' 30) 1032 True False False 30
        (new_rating_row ''alice'' ''standard'' 30)"
    by (simp add: getOrCreate_snd demo_completed_rows)
  have first: "map match_status (matches demo_completed) = [Completed]"
    "map winnerId (matches demo_completed) = [Some ''alice'']"
    "map completedAt (matches demo_completed) = [Some 30]"
    by (simp_all add: demo_completed_matches complete_row_sel)
  have rows1: "map_option gamesPlayed (getPlayerRating ''alice'' ''standard'' demo_completed) = Some 1"
    "map_option wins (getPlayerRating ''alice'' ''standard'' demo_completed) = Some 1"
    "map_option losses (getPlayerRating ''alice'' ''standard'' demo_completed) = Some 0"
    by (simp_all add: demo_completed_rows set_rating_def new_rating_row_def)
  have second: "map winnerId (matches demo_completed_again) = [Some ''bob'']"
    "map completedAt (matches demo_completed_again) = [Some 40]"
    by (simp_all add: again complete_row_sel)
  have rows2: "map_option gamesPlayed (getPlayerRating ''alice'' ''standard'' demo_completed_again) = Some 2"
    "map_option wins (getPlayerRating ''alice'' ''standard'' demo_completed_again) = Some 1"
    "map_option losses (getPlayerRating ''alice'' ''standard'' demo_completed_again) = Some 1"
    unfolding look updateRatings_lookup(1) [OF ne] old
    by (simp_all add: set_rating_def new_rating_row_def)
  show ?thesis
    using first rows1 second rows2 by blast
qed

text \<open>
  C3, amended. \<open>completeMatch\<close> fails with "match not found" and leaves the store as
  it is when no match has the given id. When the match exists (ids being the primary
  key) and the winner is an id without a row in the \<open>user\<close> table, the call fails on
  the foreign key and leaves the store as it is. When the match exists and the winner
  is no winner (null) or a user's id, then whatever the status of the match, and so also
  when it is completed already, a call during which Redis answers returns the row with
  \<open>completedAt\<close>, \<open>winnerId\<close> and status set from this call, stores it in place of the
  old row, and applies one rating update for the result of this call.
\<close>

theorem completeMatch_not_found_or_applied:
  "(mid \<notin> set (map match_id (matches s)) \<longrightarrow>
      completeMatch redis_ok mid winner now s = (s, Inl (Match_not_found mid)))
   \<and> (m \<in> set (matches s) \<and> match_id m = mid \<and> \<not> winner_references_user s winner \<longrightarrow>
      completeMatch redis_ok mid winner now s = (s, Inl Foreign_key_violation))
   \<and> (distinct (map match_id (matches s)) \<and> m \<in> set (matches s) \<and> match_id m = mid
        \<and> winner_references_user s winner \<longrightarrow>
      snd (completeMatch True mid winner now s) = Inr (complete_row winner now m)
      \<and> matches (fst (completeMatch True mid winner now s)) =
          map (\<lambda>x. if match_id x = mid then complete_row winner now x else x) (matches s)
      \<and> player_ratings (fst (completeMatch True mid winner now s)) =
          player_ratings (fst (updateRatings (player1Id m) (player2Id m) (match_gameMode m)
            (match_result winner m) now s)))"
proof -
  have "completeMatch redis_ok mid winner now s = (s, Inl (Match_not_found mid))"
    if "mid \<notin> set (map match_id (matches s))"
    using that by (intro completeMatch_missing) auto
  then show ?thesis
    using completeMatch_refused [of m s mid winner redis_ok now]
      completeMatch_result [of s m mid winner now]
      completeMatch_matches [of s m mid winner now]
      completeMatch_ratings [of s m mid winner now]
    by blast
qed

theorem completeMatch_not_found_or_applied_witness:
  "7 \<notin> set (map match_id (matches demo_store))
   \<and> completeMatch True 7 None 40 demo_store = (demo_store, Inl (Match_not_found 7))
   \<and> distinct (map match_id (matches demo_completed))
   \<and> complete_row (Some ''alice'') 30 demo_match \<in> set (matches demo_completed)
   \<and> match_id (complete_row (Some ''alice'') 30 demo_match) = 1
   \<and> match_status (complete_row (Some ''alice'') 30 demo_match) = Completed
   \<and> \<not> winner_references_user demo_completed (Some ''nobody'')
   \<and> completeMatch True 1 (Some ''nobody'') 40 demo_completed =
         (demo_completed, Inl Foreign_key_violation)
   \<and> winner_references_user demo_completed (Some ''bob'')
   \<and> snd (completeMatch True 1 (Some ''bob'') 40 demo_completed) =
         Inr (complete_row (Some ''bob'') 40 (complete_row (Some ''alice'') 30 demo_match))
   \<and> matches (fst (completeMatch True 1 (Some ''bob'') 40 demo_completed)) =
         [complete_row (Some ''bob'') 40 (complete_row (Some ''alice'') 30 demo_match)]"
proof -
  have none: "7 \<notin> set (map match_id (matches demo_store))"
    by (simp add: demo_store_def demo_facts)
  show ?thesis
    using completeMatch_not_found_or_applied [where s = demo_store and mid = 7
        and redis_ok = True and winner = None and now = 40]
      completeMatch_not_found_or_applied [where s = demo_completed and mid = 1
        and redis_ok = True and winner = "Some ''nobody''" and now = 40
        and m = "complete_row (Some ''alice'') 30 demo_match"]
      completeMatch_not_found_or_applied [where s = demo_completed and mid = 1
        and winner = "Some ''bob''" and now = 40
        and m = "complete_row (Some ''alice'') 30 demo_match"]
      none demo_completed_facts demo_completed_unknown demo_completed_winners(2)
    by (simp add: demo_completed_matches complete_row_sel demo_facts)
qed

section \<open>Invariants of the rating rows\<close>

lemma getPlayerRating_in_set:
  "getPlayerRating p m s = Some r \<Longrightarrow> r \<in> set (player_ratings s)"
  by (auto simp add: getPlayerRating_find find_Some_iff)

lemma getOrCreate_inv:
  assumes "list_all P (player_ratings s)" and "P (new_rating_row p m now)"
  shows "list_all P (player_ratings (fst (getOrCreatePlayerRating p m now s)))"
    and "P (snd (getOrCreatePlayerRating p m now s))"
proof -
  show "list_all P (player_ratings (fst (getOrCreatePlayerRating p m now s)))"
    using assms by (simp add: getOrCreatePlayerRating_def split: option.splits)
  show "P (snd (getOrCreatePlayerRating p m now s))"
  proof (cases "getPlayerRating p m s")
    case None
    then show ?thesis using assms(2) by (simp add: getOrCreate_snd)
  next
    case (Some r)
    then have "r \<in> set (player_ratings s)"
      by (rule getPlayerRating_in_set)
    then have "P r"
      using assms(1) by (simp add: list_all_iff)
    then show ?thesis using Some by (simp add: getOrCreate_snd)
  qed
qed

lemma update_row_inv:
  assumes "list_all P (player_ratings s)" and "\<And>r. P (f r)"
  shows "list_all P (player_ratings (update_rating_row p m f s))"
  using assms by (auto simp add: update_rating_row_def list_all_iff)

lemma set_rating_peak: "peak_ok (set_rating old n w l d now r)"
  by (simp add: peak_ok_def set_rating_def Math_max_def)

lemma set_rating_counts:
  assumes "counts_ok old"
    and "(w \<and> \<not> l \<and> \<not> d) \<or> (\<not> w \<and> l \<and> \<not> d) \<or> (\<not> w \<and> \<not> l \<and> d)"
  shows "counts_ok (set_rating old n w l d now r)"
  using assms by (auto simp add: counts_ok_def set_rating_def)

lemma new_row_ok: "peak_ok (new_rating_row p m now)" "counts_ok (new_rating_row p m now)"
  by (simp_all add: peak_ok_def counts_ok_def new_rating_row_def)

lemma updateRatings_peak:
  assumes "peak_invariant s"
  shows "peak_invariant (fst (updateRatings p1 p2 mode result now s))"
proof -
  have s0: "list_all peak_ok (player_ratings s)"
    using assms by (simp add: peak_invariant_def)
  have a: "list_all peak_ok (player_ratings (fst (getOrCreatePlayerRating p1 mode now s)))"
    using s0 new_row_ok(1) by (rule getOrCreate_inv(1))
  have b: "list_all peak_ok (player_ratings (fst (getOrCreatePlayerRating p2 mode now
      (fst (getOrCreatePlayerRating p1 mode now s)))))"
    using a new_row_ok(1) by (rule getOrCreate_inv(1))
  show ?thesis
    unfolding peak_invariant_def updateRatings_fst Let_def
    by (intro update_row_inv b set_rating_peak)
qed

lemma updateRatings_counts:
  assumes "counts_invariant s" and "result \<in> {0, 1 / 2, 1}"
  shows "counts_invariant (fst (updateRatings p1 p2 mode result now s))"
proof -
  let ?s1 = "fst (getOrCreatePlayerRating p1 mode now s)"
  have s0: "list_all counts_ok (player_ratings s)"
    using assms(1) by (simp add: counts_invariant_def)
  have a: "list_all counts_ok (player_ratings ?s1)"
    using s0 new_row_ok(2) by (rule getOrCreate_inv(1))
  have r1: "counts_ok (snd (getOrCreatePlayerRating p1 mode now s))"
    using s0 new_row_ok(2) by (rule getOrCreate_inv(2))
  have b: "list_all counts_ok (player_ratings (fst (getOrCreatePlayerRating p2 mode now ?s1)))"
    using a new_row_ok(2) by (rule getOrCreate_inv(1))
  have r2: "counts_ok (snd (getOrCreatePlayerRating p2 mode now ?s1))"
    using a new_row_ok(2) by (rule getOrCreate_inv(2))
  have one: "(result = 1 \<and> result \<noteq> 0 \<and> result \<noteq> 1 / 2)
      \<or> (result \<noteq> 1 \<and> result = 0 \<and> result \<noteq> 1 / 2)
      \<or> (result \<noteq> 1 \<and> result \<noteq> 0 \<and> result = 1 / 2)"
    using assms(2) by auto
  have two: "(result = 0 \<and> result \<noteq> 1 \<and> result \<noteq> 1 / 2)
      \<or> (result \<noteq> 0 \<and> result = 1 \<and> result \<noteq> 1 / 2)
      \<or> (result \<noteq> 0 \<and> result \<noteq> 1 \<and> result = 1 / 2)"
    using assms(2) by auto
  show ?thesis
    unfolding counts_invariant_def updateRatings_fst Let_def
    by (intro update_row_inv b set_rating_counts r1 r2 one two)
qed

lemma match_result_cases: "match_result winner m \<in> {0, 1 / 2, 1}"
  by (simp add: match_result_def)

lemma completeMatch_rows:
  "player_ratings (fst (completeMatch redis_ok mid winner now s)) = player_ratings s
   \<or> (\<exists>m. player_ratings (fst (completeMatch redis_ok mid winner now s)) =
        player_ratings (fst (updateRatings (player1Id m) (player2Id m) (match_gameMode m)
          (match_result winner m) now s)))"
proof (cases "filter (\<lambda>m. match_id m = mid) (matches s) \<noteq> []
    \<and> \<not> winner_references_user s winner")
  case True
  then show ?thesis by (simp add: completeMatch_def Let_def)
next
  case accepted: False
  show ?thesis
  proof (cases "filter (\<lambda>m. match_id m = mid)
      (map (\<lambda>m. if match_id m = mid then complete_row winner now m else m) (matches s))")
    case Nil
    then show ?thesis using accepted by (simp add: completeMatch_def Let_def)
  next
    case (Cons m ms)
    show ?thesis
    proof (cases redis_ok)
      case False
      then show ?thesis using Cons accepted by (simp add: completeMatch_def Let_def)
    next
      case True
      let ?s5 = "emit (state_change (player2Id m)) idle_state
            (emit (state_change (player1Id m)) idle_state
              (redis_set (PLAYER_STATE_KEY (player2Id m)) idle_state
                (redis_set (PLAYER_STATE_KEY (player1Id m)) idle_state
                  (s\<lparr>matches := map (\<lambda>m. if match_id m = mid then complete_row winner now m else m)
                       (matches s)\<rparr>))))"
      have "fst (completeMatch redis_ok mid winner now s) =
          fst (updateRatings (player1Id m) (player2Id m) (match_gameMode m)
            (match_result winner m) now ?s5)"
        using Cons True accepted
        by (auto simp add: completeMatch_def Let_def split: prod.splits)
      moreover have "player_ratings (fst (updateRatings (player1Id m) (player2Id m) (match_gameMode m)
            (match_result winner m) now ?s5)) =
          player_ratings (fst (updateRatings (player1Id m) (player2Id m) (match_gameMode m)
            (match_result winner m) now s))"
        by (rule updateRatings_cong) (simp add: emit_def redis_set_def)
      ultimately show ?thesis by auto
    qed
  qed
qed

lemma completeMatch_peak:
  assumes "peak_invariant s"
  shows "peak_invariant (fst (completeMatch redis_ok mid winner now s))"
  using completeMatch_rows [of redis_ok mid winner now s] assms
    updateRatings_peak [OF assms]
  by (auto simp add: peak_invariant_def)

lemma completeMatch_counts:
  assumes "counts_invariant s"
  shows "counts_invariant (fst (completeMatch redis_ok mid winner now s))"
  using completeMatch_rows [of redis_ok mid winner now s] assms
    updateRatings_counts [OF assms match_result_cases]
  by (auto simp add: counts_invariant_def)

text \<open>
  C4, as stated: \<open>updateRatings\<close> preserves \<open>gamesPlayed = wins + losses + draws\<close> for
  any result value it accepts. The function takes any number (the ratings router passes
  any \<open>z.number()\<close> through) and compares the result with 1, 0 and 0.5 only: for the
  result 0.3 it counts a game for both players and increments none of the three counters.
\<close>

theorem unlisted_result_breaks_counts:
  "peak_invariant demo_store \<and> counts_invariant demo_store
   \<and> \<not> counts_invariant (fst (updateRatings ''alice'' ''bob'' ''standard'' (3 / 10) 30 demo_store))"
proof -
  have ne: "''alice'' \<noteq> ''bob''"
    by simp
  let ?row = "set_rating (new_rating_row ''alice'' ''standard'' 30)
      (calculateNewRating 1000 (calculateExpectedScore 1000 1000) (3 / 10) 0)
      False False False 30 (new_rating_row ''alice'' ''standard'' 30)"
  have "getPlayerRating ''alice'' ''standard''
      (fst (updateRatings ''alice'' ''bob'' ''standard'' (3 / 10) 30 demo_store)) = Some ?row"
    unfolding updateRatings_lookup(1) [OF ne]
      snd_getOrCreate_new [OF demo_facts(7)] snd_getOrCreate_new [OF demo_facts(8)]
    by (simp add: new_rating_row_def)
  then have "?row \<in> set (player_ratings
      (fst (updateRatings ''alice'' ''bob'' ''standard'' (3 / 10) 30 demo_store)))"
    by (rule getPlayerRating_in_set)
  moreover have "\<not> counts_ok ?row"
    by (simp add: counts_ok_def set_rating_def new_rating_row_def)
  ultimately have "\<not> counts_invariant
      (fst (updateRatings ''alice'' ''bob'' ''standard'' (3 / 10) 30 demo_store))"
    unfolding counts_invariant_def list_all_iff by blast
  moreover have "peak_invariant demo_store" "counts_invariant demo_store"
    by (simp_all add: peak_invariant_def counts_invariant_def demo_store_def)
  ultimately show ?thesis by blast
qed

text \<open>
  C4, amended. A rating row is created with rating and peak rating 1000 and all counters
  0. \<open>updateRatings\<close> keeps \<open>peakRating \<ge> rating\<close> on every row for every result value,
  and keeps \<open>gamesPlayed = wins + losses + draws\<close> on every row for the result values 1,
  0.5 and 0 its documentation lists. \<open>completeMatch\<close>, which passes only these three
  values, keeps both equations for every match id and every winner.
\<close>

theorem rating_invariants_preserved:
  "rating (new_rating_row p mode now) = 1000 \<and> peakRating (new_rating_row p mode now) = 1000
   \<and> gamesPlayed (new_rating_row p mode now) = 0 \<and> wins (new_rating_row p mode now) = 0
   \<and> losses (new_rating_row p mode now) = 0 \<and> draws (new_rating_row p mode now) = 0
   \<and> (getPlayerRating p mode s = None \<longrightarrow>
        getOrCreatePlayerRating p mode now s =
          (s\<lparr>player_ratings := player_ratings s @ [new_rating_row p mode now]\<rparr>,
           new_rating_row p mode now))
   \<and> (peak_invariant s \<longrightarrow>
        peak_invariant (fst (updateRatings p1 p2 mode result now s)))
   \<and> (counts_invariant s \<and> result \<in> {0, 1 / 2, 1} \<longrightarrow>
        counts_invariant (fst (updateRatings p1 p2 mode result now s)))
   \<and> (peak_invariant s \<longrightarrow>
        peak_invariant (fst (completeMatch redis_ok mid winner now s)))
   \<and> (counts_invariant s \<longrightarrow>
        counts_invariant (fst (completeMatch redis_ok mid winner now s)))"
proof -
  have new: "rating (new_rating_row p mode now) = 1000 \<and> peakRating (new_rating_row p mode now) = 1000
   \<and> gamesPlayed (new_rating_row p mode now) = 0 \<and> wins (new_rating_row p mode now) = 0
   \<and> losses (new_rating_row p mode now) = 0 \<and> draws (new_rating_row p mode now) = 0"
    by (simp add: new_rating_row_def)
  have create: "getPlayerRating p mode s = None \<longrightarrow>
        getOrCreatePlayerRating p mode now s =
          (s\<lparr>player_ratings := player_ratings s @ [new_rating_row p mode now]\<rparr>,
           new_rating_row p mode now)"
    by (simp add: getOrCreatePlayerRating_def)
  show ?thesis
    using new create updateRatings_peak [of s p1 p2 mode result now]
      updateRatings_counts [of s result p1 p2 mode now]
      completeMatch_peak [of s redis_ok mid winner now]
      completeMatch_counts [of s redis_ok mid winner now]
    by blast
qed

lemma demo_completed_carol:
  "getPlayerRating ''carol'' ''standard'' demo_completed = None"
proof -
  have res: "match_result (Some ''alice'') demo_match = 1"
    by (simp add: match_result_def demo_facts)
  have "player_ratings demo_completed =
      player_ratings (fst (updateRatings ''alice'' ''bob'' ''standard'' 1 30 demo_store))"
    unfolding demo_completed_def
    using completeMatch_ratings [OF demo_facts(1-3) demo_winners(1), of 30]
    by (simp add: demo_facts res)
  then have "getPlayerRating ''carol'' ''standard'' demo_completed =
      getPlayerRating ''carol'' ''standard''
        (fst (updateRatings ''alice'' ''bob'' ''standard'' 1 30 demo_store))"
    by (rule getPlayerRating_cong)
  also have "\<dots> = None"
  proof -
    have "getPlayerRating ''carol'' ''standard'' demo_store = None"
      by (simp add: demo_store_def getPlayerRating_def)
    then show ?thesis
      unfolding updateRatings_fst Let_def
      by (simp add: getPlayerRating_update_other getOrCreate_lookup)
  qed
  finally show ?thesis .
qed

theorem rating_invariants_preserved_witness:
  "peak_invariant demo_store \<and> counts_invariant demo_store
   \<and> peak_invariant demo_completed \<and> counts_invariant demo_completed
   \<and> (1 / 2 :: real) \<in> {0, 1 / 2, 1}
   \<and> getPlayerRating ''carol'' ''standard'' demo_completed = None
   \<and> map_option gamesPlayed (getPlayerRating ''alice'' ''standard'' demo_completed) = Some 1
   \<and> peak_invariant (fst (updateRatings ''alice'' ''bob'' ''standard'' (1 / 2) 40 demo_completed))
   \<and> counts_invariant (fst (updateRatings ''alice'' ''bob'' ''standard'' (1 / 2) 40 demo_completed))
   \<and> peak_invariant demo_completed_again \<and> counts_invariant demo_completed_again
   \<and> snd (getOrCreatePlayerRating ''carol'' ''standard'' 40 demo_completed) =
         new_rating_row ''carol'' ''standard'' 40"
proof -
  have start: "peak_invariant demo_store" "counts_invariant demo_store"
    by (simp_all add: peak_invariant_def counts_invariant_def demo_store_def)
  have mid: "peak_invariant demo_completed" "counts_invariant demo_completed"
    using rating_invariants_preserved [of "''carol''" "''standard''" 30 demo_store
        "''alice''" "''bob''" "1 / 2" True 1 "Some ''alice''"] start
    by (simp_all add: demo_completed_def)
  have games: "map_option gamesPlayed (getPlayerRating ''alice'' ''standard'' demo_completed) = Some 1"
    by (simp add: demo_completed_rows set_rating_def new_rating_row_def)
  show ?thesis
    using rating_invariants_preserved [of "''carol''" "''standard''" 40 demo_completed
        "''alice''" "''bob''" "1 / 2" True 1 "Some ''bob''"] start mid games demo_completed_carol
    by (simp add: demo_completed_again_def)
qed

section \<open>Pairing\<close>

lemma queuedPlayers_waiting_in:
  "queuedPlayers tie mode s =
     take 2 (sort_key (\<lambda>e. (joinedAt e, tie (entry_id e))) (waiting_in mode s))"
  by (simp add: queuedPlayers_def waiting_in_def)

lemma sorted_last_Max:
  fixes f :: "'a \<Rightarrow> int"
  assumes "xs \<noteq> []" and "sorted (map f xs)"
  shows "f (last xs) = Max (f ` set xs)"
proof -
  have "\<forall>y\<in>set xs. f y \<le> f (last xs)"
    using assms
  proof (induction xs)
    case Nil
    then show ?case by simp
  next
    case (Cons a xs)
    then show ?case by (cases "xs = []") auto
  qed
  moreover have "f (last xs) \<in> f ` set xs"
    using assms(1) by simp
  ultimately show ?thesis
    by (intro Max_eqI [symmetric]) auto
qed

lemma getNextGameNumber_Max:
  "getNextGameNumber s =
     (if matches s = [] then 1 else Max (gameNumber ` set (matches s)) + 1)"
proof (cases "matches s = []")
  case True
  then show ?thesis by (simp add: getNextGameNumber_def)
next
  case False
  let ?xs = "sort_key gameNumber (matches s)"
  have ne: "?xs \<noteq> []"
    using False by (metis length_sort length_0_conv)
  then have "take 1 (rev ?xs) = [last ?xs]"
    by (cases ?xs rule: rev_cases) simp_all
  moreover have "gameNumber (last ?xs) = Max (gameNumber ` set ?xs)"
    using ne by (rule sorted_last_Max) simp
  ultimately show ?thesis
    using False by (simp add: getNextGameNumber_def)
qed

lemma fst_le_of_prod_le:
  fixes x y :: "int \<times> int"
  shows "x \<le> y \<Longrightarrow> fst x \<le> fst y"
  by (auto simp add: less_eq_prod_def)

text \<open>The first two rows of a sorted permutation.\<close>

lemma first_two_of_sorted:
  fixes k :: "queue_entry \<Rightarrow> int \<times> int"
  assumes "2 \<le> length W" and "distinct (map entry_id W)"
  obtains p1 p2 rest where "sort_key k W = p1 # p2 # rest"
    and "p1 \<in> set W" and "p2 \<in> set W" and "entry_id p1 \<noteq> entry_id p2"
    and "k p1 \<le> k p2" and "\<forall>e\<in>set W. entry_id e \<noteq> entry_id p1 \<longrightarrow> k p2 \<le> k e"
proof -
  let ?L = "sort_key k W"
  have len: "length ?L = length W"
    by simp
  then obtain p1 p2 rest where L: "?L = p1 # p2 # rest"
    using assms(1) by (cases ?L; cases "tl ?L") auto
  have setL: "set ?L = set W"
    by simp
  have dist: "distinct (map entry_id ?L)"
    using assms(2) by (metis distinct_map distinct_sort set_sort inj_on_def)
  have srt: "sorted (map k ?L)"
    by simp
  have a: "p1 \<in> set W" "p2 \<in> set W"
    using L setL by (metis list.set_intros(1), metis list.set_intros(1,2))
  have b: "entry_id p1 \<noteq> entry_id p2"
    using dist L by auto
  have c: "k p1 \<le> k p2"
    using srt L by auto
  have d: "\<forall>e\<in>set W. entry_id e \<noteq> entry_id p1 \<longrightarrow> k p2 \<le> k e"
  proof (intro ballI impI)
    fix e assume "e \<in> set W" and ne: "entry_id e \<noteq> entry_id p1"
    then have "e \<in> set (p1 # p2 # rest)"
      using setL L by simp
    then have "e = p2 \<or> e \<in> set rest"
      using ne by auto
    then show "k p2 \<le> k e"
      using srt L by auto
  qed
  show ?thesis
    using that [OF L a b c d] .
qed

lemma matchPlayers_few:
  assumes "length (waiting_in mode s) < 2"
  shows "matchPlayers tie redis_ok mode now s = (s, Inr None)"
proof -
  have "length (queuedPlayers tie mode s) < 2"
    using assms by (simp add: queuedPlayers_waiting_in)
  then have "queuedPlayers tie mode s = [] \<or> (\<exists>x. queuedPlayers tie mode s = [x])"
    by (cases "queuedPlayers tie mode s"; cases "tl (queuedPlayers tie mode s)") auto
  then show ?thesis
    by (auto simp add: matchPlayers_def)
qed

lemma matchPlayers_pair:
  assumes "queuedPlayers tie mode s = [p1, p2]"
  shows "snd (matchPlayers tie True mode now s) = Inr (Some (paired_match mode p1 p2 now s))"
    and "snd (matchPlayers tie False mode now s) = Inl Redis_unavailable"
    and "matches (fst (matchPlayers tie redis_ok mode now s)) =
           matches s @ [paired_match mode p1 p2 now s]"
    and "queue_entries (fst (matchPlayers tie redis_ok mode now s)) =
           map (\<lambda>e. if entry_id e = entry_id p1 \<or> entry_id e = entry_id p2
                     then e\<lparr>entry_status := Matched, matchId := Some (next_match_id s)\<rparr> else e)
             (queue_entries s)"
    and "next_match_id (fst (matchPlayers tie redis_ok mode now s)) = next_match_id s + 1"
    and "next_entry_id (fst (matchPlayers tie redis_ok mode now s)) = next_entry_id s"
    and "player_ratings (fst (matchPlayers tie redis_ok mode now s)) = player_ratings s"
  using assms
  by (simp_all add: matchPlayers_def Let_def paired_match_def getNextGameNumber_Max
      mark_matched_def redis_set_def emit_def)

lemma sorted_map_fst:
  fixes k :: "'a \<Rightarrow> int \<times> int"
  assumes "sorted (map k xs)"
  shows "sorted (map (\<lambda>x. fst (k x)) xs)"
  using assms by (induction xs) (auto intro: fst_le_of_prod_le)

lemma sort_key_joinedAt_unique:
  fixes g :: "queue_entry \<Rightarrow> int"
  assumes "distinct (map joinedAt W)"
  shows "sort_key (\<lambda>e. (joinedAt e, g e)) W = sort_key joinedAt W"
proof -
  let ?xs = "sort_key (\<lambda>e. (joinedAt e, g e)) W" and ?ys = "sort_key joinedAt W"
  have inj: "inj_on joinedAt (set W)" and dW: "distinct W"
    using assms by (simp_all add: distinct_map)
  have "sorted (map (\<lambda>e. (joinedAt e, g e)) ?xs)"
    by simp
  then have sx: "sorted (map joinedAt ?xs)"
    using sorted_map_fst [of "\<lambda>e. (joinedAt e, g e)" ?xs] by simp
  have dx: "distinct (map joinedAt ?xs)"
    using inj dW by (simp add: distinct_map)
  have sy: "sorted (map joinedAt ?ys)"
    by simp
  have dy: "distinct (map joinedAt ?ys)"
    using inj dW by (simp add: distinct_map)
  show ?thesis
    by (rule map_sorted_distinct_set_unique [OF _ sx dx sy dy]) (simp_all add: inj)
qed

lemma queuedPlayers_no_ties:
  assumes "distinct (map joinedAt (waiting_in mode s))"
  shows "queuedPlayers tie mode s = spec_queuedPlayers mode s"
  unfolding queuedPlayers_waiting_in spec_queuedPlayers_def waiting_in_def [symmetric]
  by (simp add: sort_key_joinedAt_unique [OF assms])

lemma queuedPlayers_two:
  assumes "2 \<le> length (waiting_in mode s)" and "distinct (map entry_id (queue_entries s))"
  shows "\<exists>p1 p2. queuedPlayers tie mode s = [p1, p2]
      \<and> p1 \<in> set (waiting_in mode s) \<and> p2 \<in> set (waiting_in mode s)
      \<and> entry_id p1 \<noteq> entry_id p2 \<and> joinedAt p1 \<le> joinedAt p2
      \<and> (\<forall>e\<in>set (waiting_in mode s). entry_id e \<noteq> entry_id p1 \<longrightarrow> joinedAt p2 \<le> joinedAt e)"
proof -
  let ?k = "\<lambda>e. (joinedAt e, tie (entry_id e))"
  have d: "distinct (map entry_id (waiting_in mode s))"
    using assms(2) by (simp add: waiting_in_def distinct_map_filter)
  obtain p1 p2 rest where L: "sort_key ?k (waiting_in mode s) = p1 # p2 # rest"
    and a: "p1 \<in> set (waiting_in mode s)" "p2 \<in> set (waiting_in mode s)"
    and b: "entry_id p1 \<noteq> entry_id p2"
    and c: "?k p1 \<le> ?k p2"
    and e: "\<forall>e\<in>set (waiting_in mode s). entry_id e \<noteq> entry_id p1 \<longrightarrow> ?k p2 \<le> ?k e"
    using first_two_of_sorted [OF assms(1) d, of ?k] by blast
  have q: "queuedPlayers tie mode s = [p1, p2]"
    by (simp add: queuedPlayers_waiting_in L)
  have c': "joinedAt p1 \<le> joinedAt p2"
    using fst_le_of_prod_le [OF c] by simp
  have e': "\<forall>e\<in>set (waiting_in mode s). entry_id e \<noteq> entry_id p1 \<longrightarrow> joinedAt p2 \<le> joinedAt e"
    using e fst_le_of_prod_le by fastforce
  show ?thesis
    using q a b c' e' by blast
qed

lemma mark_by_id_is_mark_rows:
  assumes "distinct (map entry_id xs)" and "p1 \<in> set xs" and "p2 \<in> set xs"
  shows "map (\<lambda>e. if entry_id e = entry_id p1 \<or> entry_id e = entry_id p2 then f e else e) xs =
         map (\<lambda>e. if e = p1 \<or> e = p2 then f e else e) xs"
proof (rule map_cong [OF refl])
  fix e assume "e \<in> set xs"
  then have "entry_id e = entry_id p1 \<longleftrightarrow> e = p1" "entry_id e = entry_id p2 \<longleftrightarrow> e = p2"
    using assms by (auto simp add: distinct_map inj_on_def)
  then show "(if entry_id e = entry_id p1 \<or> entry_id e = entry_id p2 then f e else e) =
      (if e = p1 \<or> e = p2 then f e else e)"
    by simp
qed

text \<open>
  C2, as stated: the two entries paired are the first two in the order by \<open>joinedAt\<close>
  with ties broken by entry id. The query of \<open>matchPlayers\<close> orders by \<open>joinedAt\<close>
  alone. With three entries that joined at the same time, a store that returns tied rows
  by descending id pairs the entries 3 and 2 and leaves entry 1 waiting, where the
  specification's order pairs 1 and 2.
\<close>

theorem ties_not_broken_by_entry_id:
  "map joinedAt (waiting_in ''standard'' demo_tied) = [10, 10, 10]
   \<and> map entry_id (spec_queuedPlayers ''standard'' demo_tied) = [1, 2]
   \<and> map entry_id (queuedPlayers uminus ''standard'' demo_tied) = [3, 2]
   \<and> map entry_id (queue_entries (fst (matchPlayers uminus True ''standard'' 50 demo_tied))) =
       [1, 2, 3]
   \<and> map entry_status (queue_entries (fst (matchPlayers uminus True ''standard'' 50 demo_tied))) =
       [Waiting, Matched, Matched]"
proof -
  have a: "map joinedAt (waiting_in ''standard'' demo_tied) = [10, 10, 10]"
    by (simp add: waiting_in_def demo_tied_def waiting_entry_def)
  have b: "map entry_id (spec_queuedPlayers ''standard'' demo_tied) = [1, 2]"
    by (simp add: spec_queuedPlayers_def demo_tied_def waiting_entry_def less_eq_prod_def)
  have q: "queuedPlayers uminus ''standard'' demo_tied =
      [waiting_entry 3 ''carol'' 10, waiting_entry 2 ''bob'' 10]"
    by (simp add: queuedPlayers_def demo_tied_def waiting_entry_def less_eq_prod_def)
  have c: "map entry_id (queuedPlayers uminus ''standard'' demo_tied) = [3, 2]"
    by (simp add: q waiting_entry_def)
  have d: "map entry_id (queue_entries (fst (matchPlayers uminus True ''standard'' 50 demo_tied))) =
       [1, 2, 3]"
    unfolding matchPlayers_pair(4) [OF q]
    by (simp add: demo_tied_def waiting_entry_def)
  have e: "map entry_status (queue_entries (fst (matchPlayers uminus True ''standard'' 50 demo_tied))) =
       [Waiting, Matched, Matched]"
    unfolding matchPlayers_pair(4) [OF q]
    by (simp add: demo_tied_def waiting_entry_def)
  show ?thesis
    using a b c d e by blast
qed

text \<open>
  C2, amended. With fewer than two waiting entries for the mode \<open>matchPlayers\<close> changes
  nothing and returns null. Otherwise (entry ids being the primary key) it pairs two
  different waiting entries of the mode that are first in the order by \<open>joinedAt\<close>: the
  first joined no later than the second, and the second no later than every other waiting
  entry; which entries come first among equal \<open>joinedAt\<close> is left to the store. It
  creates (and, Redis answering, returns) the match between their players whose game
  number is the largest existing game number plus one, or 1 without any match, and sets
  exactly these two entries to matched with the id of the new match, leaving all other rows
  as they are. When the waiting entries have pairwise different \<open>joinedAt\<close>, the pair is
  the one the specification names; so of three entries joined at \<open>t1 < t2 < t3\<close> the
  first two are paired and the third stays waiting.
\<close>

theorem matchPlayers_pairs_longest_waiting:
  "(length (waiting_in mode s) < 2 \<longrightarrow>
      matchPlayers tie redis_ok mode now s = (s, Inr None))
   \<and> (2 \<le> length (waiting_in mode s) \<and> distinct (map entry_id (queue_entries s)) \<longrightarrow>
      (\<exists>p1 p2. queuedPlayers tie mode s = [p1, p2]
        \<and> p1 \<in> set (waiting_in mode s) \<and> p2 \<in> set (waiting_in mode s)
        \<and> entry_id p1 \<noteq> entry_id p2 \<and> joinedAt p1 \<le> joinedAt p2
        \<and> (\<forall>e\<in>set (waiting_in mode s). e \<noteq> p1 \<longrightarrow> joinedAt p2 \<le> joinedAt e)
        \<and> snd (matchPlayers tie True mode now s) = Inr (Some (paired_match mode p1 p2 now s))
        \<and> matches (fst (matchPlayers tie redis_ok mode now s)) =
            matches s @ [paired_match mode p1 p2 now s]
        \<and> queue_entries (fst (matchPlayers tie redis_ok mode now s)) =
            map (\<lambda>e. if e = p1 \<or> e = p2
                      then e\<lparr>entry_status := Matched, matchId := Some (next_match_id s)\<rparr>
                      else e)
              (queue_entries s)))
   \<and> (distinct (map joinedAt (waiting_in mode s)) \<longrightarrow>
      queuedPlayers tie mode s = spec_queuedPlayers mode s)"
proof -
  have few: "length (waiting_in mode s) < 2 \<longrightarrow>
      matchPlayers tie redis_ok mode now s = (s, Inr None)"
    using matchPlayers_few by blast
  have two: "2 \<le> length (waiting_in mode s) \<and> distinct (map entry_id (queue_entries s)) \<longrightarrow>
      (\<exists>p1 p2. queuedPlayers tie mode s = [p1, p2]
        \<and> p1 \<in> set (waiting_in mode s) \<and> p2 \<in> set (waiting_in mode s)
        \<and> entry_id p1 \<noteq> entry_id p2 \<and> joinedAt p1 \<le> joinedAt p2
        \<and> (\<forall>e\<in>set (waiting_in mode s). e \<noteq> p1 \<longrightarrow> joinedAt p2 \<le> joinedAt e)
        \<and> snd (matchPlayers tie True mode now s) = Inr (Some (paired_match mode p1 p2 now s))
        \<and> matches (fst (matchPlayers tie redis_ok mode now s)) =
            matches s @ [paired_match mode p1 p2 now s]
        \<and> queue_entries (fst (matchPlayers tie redis_ok mode now s)) =
            map (\<lambda>e. if e = p1 \<or> e = p2
                      then e\<lparr>entry_status := Matched, matchId := Some (next_match_id s)\<rparr>
                      else e)
              (queue_entries s))"
  proof
    assume h: "2 \<le> length (waiting_in mode s) \<and> distinct (map entry_id (queue_entries s))"
    then have len: "2 \<le> length (waiting_in mode s)"
      and dist: "distinct (map entry_id (queue_entries s))"
      by simp_all
    obtain p1 p2 where q: "queuedPlayers tie mode s = [p1, p2]"
      and a: "p1 \<in> set (waiting_in mode s)" "p2 \<in> set (waiting_in mode s)"
      and b: "entry_id p1 \<noteq> entry_id p2" "joinedAt p1 \<le> joinedAt p2"
      and c: "\<forall>e\<in>set (waiting_in mode s). entry_id e \<noteq> entry_id p1 \<longrightarrow> joinedAt p2 \<le> joinedAt e"
      using queuedPlayers_two [OF len dist, of tie] by blast
    have inq: "p1 \<in> set (queue_entries s)" "p2 \<in> set (queue_entries s)"
      using a by (simp_all add: waiting_in_def)
    have c': "\<forall>e\<in>set (waiting_in mode s). e \<noteq> p1 \<longrightarrow> joinedAt p2 \<le> joinedAt e"
    proof (intro ballI impI)
      fix e assume e: "e \<in> set (waiting_in mode s)" and ne: "e \<noteq> p1"
      have "e \<in> set (queue_entries s)"
        using e by (simp add: waiting_in_def)
      then have "entry_id e \<noteq> entry_id p1"
        using ne inq(1) dist by (auto simp add: distinct_map inj_on_def)
      then show "joinedAt p2 \<le> joinedAt e"
        using c e by blast
    qed
    have rows: "queue_entries (fst (matchPlayers tie redis_ok mode now s)) =
            map (\<lambda>e. if e = p1 \<or> e = p2
                      then e\<lparr>entry_status := Matched, matchId := Some (next_match_id s)\<rparr>
                      else e)
              (queue_entries s)"
      unfolding matchPlayers_pair(4) [OF q]
      by (rule mark_by_id_is_mark_rows [OF dist inq])
    show "\<exists>p1 p2. queuedPlayers tie mode s = [p1, p2]
        \<and> p1 \<in> set (waiting_in mode s) \<and> p2 \<in> set (waiting_in mode s)
        \<and> entry_id p1 \<noteq> entry_id p2 \<and> joinedAt p1 \<le> joinedAt p2
        \<and> (\<forall>e\<in>set (waiting_in mode s). e \<noteq> p1 \<longrightarrow> joinedAt p2 \<le> joinedAt e)
        \<and> snd (matchPlayers tie True mode now s) = Inr (Some (paired_match mode p1 p2 now s))
        \<and> matches (fst (matchPlayers tie redis_ok mode now s)) =
            matches s @ [paired_match mode p1 p2 now s]
        \<and> queue_entries (fst (matchPlayers tie redis_ok mode now s)) =
            map (\<lambda>e. if e = p1 \<or> e = p2
                      then e\<lparr>entry_status := Matched, matchId := Some (next_match_id s)\<rparr>
                      else e)
              (queue_entries s)"
      using q a b c' matchPlayers_pair(1) [OF q] matchPlayers_pair(3) [OF q] rows
      by blast
  qed
  have det: "distinct (map joinedAt (waiting_in mode s)) \<longrightarrow>
      queuedPlayers tie mode s = spec_queuedPlayers mode s"
    using queuedPlayers_no_ties by blast
  show ?thesis
    using few two det by blast
qed

theorem matchPlayers_pairs_longest_waiting_witness:
  "length (waiting_in ''standard'' demo_store) < 2
   \<and> matchPlayers uminus True ''standard'' 50 demo_store = (demo_store, Inr None)
   \<and> 2 \<le> length (waiting_in ''standard'' demo_queue)
   \<and> distinct (map entry_id (queue_entries demo_queue))
   \<and> distinct (map joinedAt (waiting_in ''standard'' demo_queue))
   \<and> map joinedAt (queue_entries demo_queue) = [30, 10, 20]
   \<and> map entry_playerId (queuedPlayers uminus ''standard'' demo_queue) = [''alice'', ''bob'']
   \<and> map entry_status (queue_entries (fst (matchPlayers uminus True ''standard'' 50 demo_queue))) =
       [Waiting, Matched, Matched]
   \<and> map matchId (queue_entries (fst (matchPlayers uminus True ''standard'' 50 demo_queue))) =
       [None, Some 2, Some 2]
   \<and> map gameNumber (matches (fst (matchPlayers uminus True ''standard'' 50 demo_queue))) = [7, 8]
   \<and> map match_id (matches (fst (matchPlayers uminus True ''standard'' 50 demo_queue))) = [1, 2]"
proof -
  let ?a = "waiting_entry 2 ''alice'' 10" and ?b = "waiting_entry 3 ''bob'' 20"
  have h1: "length (waiting_in ''standard'' demo_store) < 2"
    by (simp add: waiting_in_def demo_store_def)
  have h2: "2 \<le> length (waiting_in ''standard'' demo_queue)"
    and h3: "distinct (map entry_id (queue_entries demo_queue))"
    and h4: "distinct (map joinedAt (waiting_in ''standard'' demo_queue))"
    and h5: "map joinedAt (queue_entries demo_queue) = [30, 10, 20]"
    by (simp_all add: waiting_in_def demo_queue_def waiting_entry_def)
  have sp: "spec_queuedPlayers ''standard'' demo_queue = [?a, ?b]"
    by (simp add: spec_queuedPlayers_def demo_queue_def waiting_entry_def less_eq_prod_def)
  note inst = matchPlayers_pairs_longest_waiting [of "''standard''" _ uminus True 50]
  have none: "matchPlayers uminus True ''standard'' 50 demo_store = (demo_store, Inr None)"
    using inst [of demo_store] h1 by blast
  have q: "queuedPlayers uminus ''standard'' demo_queue = [?a, ?b]"
    using inst [of demo_queue] h4 sp by simp
  obtain p1 p2 where "queuedPlayers uminus ''standard'' demo_queue = [p1, p2]"
    and m: "matches (fst (matchPlayers uminus True ''standard'' 50 demo_queue)) =
        matches demo_queue @ [paired_match ''standard'' p1 p2 50 demo_queue]"
    and r: "queue_entries (fst (matchPlayers uminus True ''standard'' 50 demo_queue)) =
        map (\<lambda>e. if e = p1 \<or> e = p2
                  then e\<lparr>entry_status := Matched, matchId := Some (next_match_id demo_queue)\<rparr>
                  else e)
          (queue_entries demo_queue)"
    using inst [of demo_queue] h2 h3 by blast
  then have p: "p1 = ?a" "p2 = ?b"
    using q by simp_all
  have c1: "map entry_playerId (queuedPlayers uminus ''standard'' demo_queue) = [''alice'', ''bob'']"
    by (simp add: q waiting_entry_def)
  have c2: "map entry_status (queue_entries (fst (matchPlayers uminus True ''standard'' 50 demo_queue))) =
       [Waiting, Matched, Matched]"
    and c3: "map matchId (queue_entries (fst (matchPlayers uminus True ''standard'' 50 demo_queue))) =
       [None, Some 2, Some 2]"
    unfolding r p by (simp_all add: demo_queue_def waiting_entry_def)
  have c4: "map gameNumber (matches (fst (matchPlayers uminus True ''standard'' 50 demo_queue))) = [7, 8]"
    and c5: "map match_id (matches (fst (matchPlayers uminus True ''standard'' 50 demo_queue))) = [1, 2]"
    unfolding m p by (simp_all add: demo_queue_def paired_match_def demo_match_def)
  show ?thesis
    using h1 none h2 h3 h4 h5 c1 c2 c3 c4 c5 by blast
qed

section \<open>Joining the queue\<close>

lemma joinQueue_existing:
  assumes "waiting_of pid s = e # es"
  shows "joinQueue tie redis_ok pid mode now s = (s, Inr e)"
  using assms by (simp add: joinQueue_def waiting_of_def)

lemma joinQueue_new:
  assumes "waiting_of pid s = []"
  shows "joinQueue tie True pid mode now s =
     (fst (matchPlayers tie True mode now (enqueued pid mode now s)),
      Inr (joined_entry pid mode now s))"
    and "snd (joinQueue tie False pid mode now s) = Inl Redis_unavailable"
proof -
  have ok: "\<exists>r. snd (matchPlayers tie True mode now t) = Inr r" for t
    by (simp add: matchPlayers_def Let_def split: list.splits)
  obtain s4 r where m: "matchPlayers tie True mode now (enqueued pid mode now s) = (s4, Inr r)"
    using ok [of "enqueued pid mode now s"] by (metis prod.collapse)
  show "joinQueue tie True pid mode now s =
     (fst (matchPlayers tie True mode now (enqueued pid mode now s)),
      Inr (joined_entry pid mode now s))"
    using assms m
    by (simp add: joinQueue_def waiting_of_def Let_def joined_entry_def [symmetric]
        enqueued_def [symmetric])
  show "snd (joinQueue tie False pid mode now s) = Inl Redis_unavailable"
    using assms by (simp add: joinQueue_def waiting_of_def Let_def)
qed


lemma matchPlayers_cases:
  "matchPlayers tie redis_ok mode now s = (s, Inr None)
   \<or> (\<exists>p1 p2. queuedPlayers tie mode s = [p1, p2])"
proof -
  have "length (queuedPlayers tie mode s) \<le> 2"
    by (simp add: queuedPlayers_def)
  then consider "queuedPlayers tie mode s = []" | x where "queuedPlayers tie mode s = [x]"
    | p1 p2 where "queuedPlayers tie mode s = [p1, p2]"
    by (cases "queuedPlayers tie mode s"; cases "tl (queuedPlayers tie mode s)";
        cases "tl (tl (queuedPlayers tie mode s))") auto
  then show ?thesis
    by cases (auto simp add: matchPlayers_def)
qed

lemma filter_map_marked:
  assumes "\<And>x. \<not> P (f x)"
  shows "filter P (map (\<lambda>x. if M x then f x else x) xs) = filter (\<lambda>x. P x \<and> \<not> M x) xs"
  using assms by (induction xs) auto

lemma waiting_of_enqueued:
  "waiting_of pid (enqueued pid mode now s) = waiting_of pid s @ [joined_entry pid mode now s]"
  by (simp add: waiting_of_def enqueued_def emit_def redis_set_def joined_entry_def)

lemma waiting_after_pairing:
  assumes "waiting_of pid t = [e]"
    and "e \<in> set (queue_entries (fst (matchPlayers tie redis_ok mode now t)))"
  shows "waiting_of pid (fst (matchPlayers tie redis_ok mode now t)) = [e]"
proof -
  have w: "entry_playerId e = pid" "entry_status e = Waiting"
    using assms(1) by (metis (mono_tags, lifting) filter_eq_ConsD waiting_of_def)+
  consider "matchPlayers tie redis_ok mode now t = (t, Inr None)"
    | p1 p2 where "queuedPlayers tie mode t = [p1, p2]"
    using matchPlayers_cases by blast
  then show ?thesis
  proof cases
    case 1
    then show ?thesis using assms(1) by simp
  next
    case 2
    let ?M = "\<lambda>x. entry_id x = entry_id p1 \<or> entry_id x = entry_id p2"
    let ?f = "\<lambda>x. x\<lparr>entry_status := Matched, matchId := Some (next_match_id t)\<rparr>"
    let ?P = "\<lambda>x. entry_playerId x = pid \<and> entry_status x = Waiting"
    have rows: "queue_entries (fst (matchPlayers tie redis_ok mode now t)) =
        map (\<lambda>x. if ?M x then ?f x else x) (queue_entries t)"
      by (rule matchPlayers_pair(4) [OF 2])
    have "e \<in> set (map (\<lambda>x. if ?M x then ?f x else x) (queue_entries t))"
      using assms(2) rows by simp
    then obtain x where x: "x \<in> set (queue_entries t)" "e = (if ?M x then ?f x else x)"
      by auto
    have "\<not> ?M x"
      using x(2) w(2) by (auto split: if_splits)
    then have unmarked: "\<not> ?M e"
      using x(2) by simp
    have "waiting_of pid (fst (matchPlayers tie redis_ok mode now t)) =
        filter (\<lambda>x. ?P x \<and> \<not> ?M x) (queue_entries t)"
      unfolding waiting_of_def rows by (rule filter_map_marked) simp
    also have "\<dots> = filter (\<lambda>x. \<not> ?M x) (waiting_of pid t)"
      by (simp add: waiting_of_def conj_commute)
    also have "\<dots> = [e]"
      using unmarked by (simp add: assms(1))
    finally show ?thesis .
  qed
qed

text \<open>
  C7, amended. If the player has a waiting entry, \<open>joinQueue\<close> returns it (the first
  one in the table) and changes nothing. If the player had at most one waiting entry, a
  call returned an entry and that entry is still in the table as returned (the call did
  not pair it), then a second call in a row, for any mode, returns the same entry,
  changes nothing, and the player has exactly this one waiting row.
\<close>

theorem joinQueue_returns_waiting_entry:
  "(waiting_of pid s = e # es \<longrightarrow> joinQueue tie redis_ok pid mode now s = (s, Inr e))
   \<and> (length (waiting_of pid s) \<le> 1
        \<and> joinQueue tie redis_ok pid mode now s = (s1, Inr e1)
        \<and> e1 \<in> set (queue_entries s1) \<longrightarrow>
        joinQueue tie' redis_ok' pid mode' now' s1 = (s1, Inr e1)
        \<and> waiting_of pid s1 = [e1])"
proof -
  have second: "joinQueue tie' redis_ok' pid mode' now' s1 = (s1, Inr e1)
      \<and> waiting_of pid s1 = [e1]"
    if len: "length (waiting_of pid s) \<le> 1"
      and j: "joinQueue tie redis_ok pid mode now s = (s1, Inr e1)"
      and mem: "e1 \<in> set (queue_entries s1)"
  proof -
    have w: "waiting_of pid s1 = [e1]"
    proof (cases "waiting_of pid s")
      case Nil
      have ok: redis_ok
        using joinQueue_new(2) [OF Nil, of tie mode now] j by (cases redis_ok) auto
      let ?t = "enqueued pid mode now s"
      have s1: "s1 = fst (matchPlayers tie True mode now ?t)"
        and e1: "e1 = joined_entry pid mode now s"
        using joinQueue_new(1) [OF Nil, of tie mode now] j ok by simp_all
      have "waiting_of pid ?t = [e1]"
        by (simp add: waiting_of_enqueued Nil e1)
      then show ?thesis
        unfolding s1 using mem s1 by (intro waiting_after_pairing) simp_all
    next
      case (Cons a as)
      then have "as = []"
        using len by simp
      moreover have "s1 = s" "e1 = a"
        using joinQueue_existing [OF Cons, of tie redis_ok mode now] j by simp_all
      ultimately show ?thesis
        using Cons by simp
    qed
    then show ?thesis
      using joinQueue_existing [of pid s1 e1 "[]"] by simp
  qed
  show ?thesis
    using joinQueue_existing [of pid s e es tie redis_ok mode now] second by blast
qed


lemma demo_joined_facts:
  "waiting_of ''alice'' demo_waiting = []"
  "snd (joinQueue id True ''alice'' ''standard'' 20 demo_waiting) =
     Inr (joined_entry ''alice'' ''standard'' 20 demo_waiting)"
  "queue_entries demo_joined =
     [(waiting_entry 1 ''bob'' 10)\<lparr>entry_status := Matched, matchId := Some 1\<rparr>,
      (joined_entry ''alice'' ''standard'' 20 demo_waiting)\<lparr>entry_status := Matched, matchId := Some 1\<rparr>]"
  "next_entry_id demo_joined = 3"
proof -
  let ?t = "enqueued ''alice'' ''standard'' 20 demo_waiting"
  show w: "waiting_of ''alice'' demo_waiting = []"
    by (simp add: waiting_of_def demo_waiting_def waiting_entry_def)
  have q: "queuedPlayers id ''standard'' ?t =
      [waiting_entry 1 ''bob'' 10, joined_entry ''alice'' ''standard'' 20 demo_waiting]"
    by (simp add: queuedPlayers_def enqueued_def emit_def redis_set_def joined_entry_def
        demo_waiting_def waiting_entry_def less_eq_prod_def)
  have j: "demo_joined = fst (matchPlayers id True ''standard'' 20 ?t)"
    by (simp add: demo_joined_def joinQueue_new(1) [OF w])
  show "snd (joinQueue id True ''alice'' ''standard'' 20 demo_waiting) =
     Inr (joined_entry ''alice'' ''standard'' 20 demo_waiting)"
    by (simp add: joinQueue_new(1) [OF w])
  show "queue_entries demo_joined =
     [(waiting_entry 1 ''bob'' 10)\<lparr>entry_status := Matched, matchId := Some 1\<rparr>,
      (joined_entry ''alice'' ''standard'' 20 demo_waiting)\<lparr>entry_status := Matched, matchId := Some 1\<rparr>]"
    unfolding j matchPlayers_pair(4) [OF q]
    by (simp add: enqueued_def emit_def redis_set_def joined_entry_def demo_waiting_def
        waiting_entry_def)
  show "next_entry_id demo_joined = 3"
    unfolding j matchPlayers_pair(6) [OF q]
    by (simp add: enqueued_def emit_def redis_set_def demo_waiting_def)
qed

text \<open>
  C7, as stated: two calls of \<open>joinQueue\<close> in a row for the same player return the same
  entry. \<open>joinQueue\<close> calls \<open>matchPlayers\<close> after the insertion: when bob is waiting
  and alice joins, alice's entry 2 is paired at once and is no longer waiting, so her
  second call finds no waiting entry, inserts entry 3 and returns it.
\<close>

theorem second_join_after_pairing_inserts:
  "waiting_of ''alice'' demo_waiting = []
   \<and> snd (joinQueue id True ''alice'' ''standard'' 20 demo_waiting) =
       Inr (joined_entry ''alice'' ''standard'' 20 demo_waiting)
   \<and> entry_id (joined_entry ''alice'' ''standard'' 20 demo_waiting) = 2
   \<and> map entry_status (queue_entries demo_joined) = [Matched, Matched]
   \<and> snd (joinQueue id True ''alice'' ''standard'' 30 demo_joined) =
       Inr (joined_entry ''alice'' ''standard'' 30 demo_joined)
   \<and> entry_id (joined_entry ''alice'' ''standard'' 30 demo_joined) = 3
   \<and> map entry_id (queue_entries (fst (joinQueue id True ''alice'' ''standard'' 30 demo_joined))) =
       [1, 2, 3]"
proof -
  have w2: "waiting_of ''alice'' demo_joined = []"
    by (simp add: waiting_of_def demo_joined_facts(3))
  let ?t = "enqueued ''alice'' ''standard'' 30 demo_joined"
  have "waiting_in ''standard'' ?t = [joined_entry ''alice'' ''standard'' 30 demo_joined]"
    by (simp add: waiting_in_def enqueued_def emit_def redis_set_def demo_joined_facts(3)
        joined_entry_def)
  then have "length (waiting_in ''standard'' ?t) < 2"
    by simp
  then have m: "matchPlayers id True ''standard'' 30 ?t = (?t, Inr None)"
    by (rule matchPlayers_few)
  have a: "entry_id (joined_entry ''alice'' ''standard'' 20 demo_waiting) = 2"
    by (simp add: joined_entry_def demo_waiting_def)
  have b: "map entry_status (queue_entries demo_joined) = [Matched, Matched]"
    by (simp add: demo_joined_facts(3))
  have c: "snd (joinQueue id True ''alice'' ''standard'' 30 demo_joined) =
       Inr (joined_entry ''alice'' ''standard'' 30 demo_joined)"
    by (simp add: joinQueue_new(1) [OF w2])
  have d: "entry_id (joined_entry ''alice'' ''standard'' 30 demo_joined) = 3"
    by (simp add: joined_entry_def demo_joined_facts(4))
  have e: "map entry_id (queue_entries (fst (joinQueue id True ''alice'' ''standard'' 30 demo_joined))) =
       [1, 2, 3]"
    unfolding joinQueue_new(1) [OF w2] fst_conv m
    by (simp add: enqueued_def emit_def redis_set_def demo_joined_facts(3,4) joined_entry_def
        waiting_entry_def demo_waiting_def)
  show ?thesis
    using demo_joined_facts(1,2) a b c d e by blast
qed

theorem joinQueue_returns_waiting_entry_witness:
  "waiting_of ''bob'' demo_waiting = [waiting_entry 1 ''bob'' 10]
   \<and> joinQueue id True ''bob'' ''vanilla'' 20 demo_waiting =
       (demo_waiting, Inr (waiting_entry 1 ''bob'' 10))
   \<and> length (waiting_of ''carol'' demo_waiting) \<le> 1
   \<and> joinQueue id True ''carol'' ''vanilla'' 20 demo_waiting =
       (enqueued ''carol'' ''vanilla'' 20 demo_waiting,
        Inr (joined_entry ''carol'' ''vanilla'' 20 demo_waiting))
   \<and> joined_entry ''carol'' ''vanilla'' 20 demo_waiting
       \<in> set (queue_entries (enqueued ''carol'' ''vanilla'' 20 demo_waiting))
   \<and> joinQueue id True ''carol'' ''vanilla'' 30 (enqueued ''carol'' ''vanilla'' 20 demo_waiting) =
       (enqueued ''carol'' ''vanilla'' 20 demo_waiting,
        Inr (joined_entry ''carol'' ''vanilla'' 20 demo_waiting))
   \<and> waiting_of ''carol'' (enqueued ''carol'' ''vanilla'' 20 demo_waiting) =
       [joined_entry ''carol'' ''vanilla'' 20 demo_waiting]"
proof -
  let ?t = "enqueued ''carol'' ''vanilla'' 20 demo_waiting"
  let ?e = "joined_entry ''carol'' ''vanilla'' 20 demo_waiting"
  have h1: "waiting_of ''bob'' demo_waiting = [waiting_entry 1 ''bob'' 10]"
    by (simp add: waiting_of_def demo_waiting_def waiting_entry_def)
  have w: "waiting_of ''carol'' demo_waiting = []"
    by (simp add: waiting_of_def demo_waiting_def waiting_entry_def)
  then have h2: "length (waiting_of ''carol'' demo_waiting) \<le> 1"
    by simp
  have "waiting_in ''vanilla'' ?t = [?e]"
    by (simp add: waiting_in_def enqueued_def emit_def redis_set_def demo_waiting_def
        joined_entry_def waiting_entry_def)
  then have "length (waiting_in ''vanilla'' ?t) < 2"
    by simp
  then have "matchPlayers id True ''vanilla'' 20 ?t = (?t, Inr None)"
    by (rule matchPlayers_few)
  then have h3: "joinQueue id True ''carol'' ''vanilla'' 20 demo_waiting = (?t, Inr ?e)"
    by (simp add: joinQueue_new(1) [OF w])
  have h4: "?e \<in> set (queue_entries ?t)"
    by (simp add: enqueued_def emit_def redis_set_def)
  show ?thesis
    using joinQueue_returns_waiting_entry [of "''bob''" demo_waiting "waiting_entry 1 ''bob'' 10" "[]"
        id True "''vanilla''" 20]
      joinQueue_returns_waiting_entry [of "''carol''" demo_waiting _ _ id True "''vanilla''" 20
        ?t ?e id True "''vanilla''" 30]
      h1 h2 h3 h4
    by blast
qed

section \<open>Reading the leaderboard\<close>

lemma refresh_try_failed_metadata:
  assumes "snd (refresh_try env q st) = Inl e"
  shows "metadata (fst (refresh_try env q st)) = metadata st"
  using assms
  by (auto simp add: refresh_try_def Let_def pipeline_exec_def split: option.splits if_splits)

lemma refresh_try_success:
  assumes "get_leaderboard env q = Some fresh" and "cache_write_ok env" and "store_write_ok env"
    and "metadata st (getSnapshotKey q (replace_colon_dot (now_iso env))) = None"
  shows "snd (refresh_try env q st) = Inr fresh"
    and "metadata (fst (refresh_try env q st)) (getBackupKey q) =
           Some \<lparr>md_data = fresh, md_timestamp = now_iso env, md_queue_id = None\<rparr>"
    and "redis_strings (fst (refresh_try env q st)) (getRawKey q) = Some fresh"
  using assms by (simp_all add: refresh_try_def Let_def pipeline_exec_def)

lemma backup_fallback_ok:
  "backup_fallback True q st = Inr \<lparr>data = backup_data q st, isStale = True\<rparr>"
  by (simp add: backup_fallback_def backup_data_def split: option.splits)

lemma backup_fallback_down: "backup_fallback False q st = Inl Store_unavailable"
  by (simp add: backup_fallback_def)

lemma backup_data_cong: "metadata st' = metadata st \<Longrightarrow> backup_data q st' = backup_data q st"
  by (simp add: backup_data_def)

lemma refreshLeaderboard_cases:
  "snd (refreshLeaderboard env q st) =
     (case snd (refresh_try env q st) of
        Inr fresh \<Rightarrow> Inr \<lparr>data = fresh, isStale = False\<rparr>
      | Inl e \<Rightarrow> if refresh_backup_read_ok env
                 then Inr \<lparr>data = backup_data q st, isStale = True\<rparr>
                 else Inl Store_unavailable)"
proof (cases "snd (refresh_try env q st)")
  case (Inl e)
  then have "backup_data q (fst (refresh_try env q st)) = backup_data q st"
    by (intro backup_data_cong refresh_try_failed_metadata)
  then show ?thesis
    using Inl
    by (cases "refresh_try env q st"; cases "refresh_backup_read_ok env")
      (simp_all add: refreshLeaderboard_def backup_fallback_ok backup_fallback_down)
next
  case (Inr fresh)
  then show ?thesis
    by (cases "refresh_try env q st") (simp add: refreshLeaderboard_def)
qed

lemma refreshLeaderboard_fst:
  "fst (refreshLeaderboard env q st) = fst (refresh_try env q st)"
  by (cases "refresh_try env q st"; cases "snd (refresh_try env q st)")
    (simp_all add: refreshLeaderboard_def)

lemma refreshLeaderboard_failed_metadata:
  assumes "snd (refreshLeaderboard env q st) = Inl e"
  shows "metadata (fst (refreshLeaderboard env q st)) = metadata st"
proof -
  obtain e' where "snd (refresh_try env q st) = Inl e'"
    using assms by (cases "snd (refresh_try env q st)") (simp_all add: refreshLeaderboard_cases)
  then show ?thesis
    by (simp add: refreshLeaderboard_fst refresh_try_failed_metadata)
qed

lemma getLeaderboard_hit:
  assumes "cache_read_ok env" and "redis_strings st (getRawKey q) = Some cached"
  shows "getLeaderboard env q st = (st, Inr \<lparr>data = cached, isStale = False\<rparr>)"
  using assms by (simp add: getLeaderboard_def)

lemma getLeaderboard_miss:
  assumes "cache_read_ok env" and "redis_strings st (getRawKey q) = None"
  shows "snd (getLeaderboard env q st) =
     (case snd (refreshLeaderboard env q st) of
        Inr r \<Rightarrow> Inr r
      | Inl e \<Rightarrow> if backup_read_ok env
                 then Inr \<lparr>data = backup_data q st, isStale = True\<rparr>
                 else Inl Store_unavailable)"
    and "fst (getLeaderboard env q st) = fst (refreshLeaderboard env q st)"
proof -
  show "fst (getLeaderboard env q st) = fst (refreshLeaderboard env q st)"
    using assms
    by (cases "refreshLeaderboard env q st"; cases "snd (refreshLeaderboard env q st)")
      (simp_all add: getLeaderboard_def)
  show "snd (getLeaderboard env q st) =
     (case snd (refreshLeaderboard env q st) of
        Inr r \<Rightarrow> Inr r
      | Inl e \<Rightarrow> if backup_read_ok env
                 then Inr \<lparr>data = backup_data q st, isStale = True\<rparr>
                 else Inl Store_unavailable)"
  proof (cases "snd (refreshLeaderboard env q st)")
    case (Inl e)
    then have "backup_data q (fst (refreshLeaderboard env q st)) = backup_data q st"
      by (intro backup_data_cong refreshLeaderboard_failed_metadata)
    then show ?thesis
      using assms Inl
      by (cases "refreshLeaderboard env q st"; cases "backup_read_ok env")
        (simp_all add: getLeaderboard_def backup_fallback_ok backup_fallback_down)
  next
    case (Inr r)
    then show ?thesis
      using assms by (cases "refreshLeaderboard env q st") (simp add: getLeaderboard_def)
  qed
qed

lemma getLeaderboard_cache_down:
  assumes "\<not> cache_read_ok env"
  shows "getLeaderboard env q st = (st, backup_fallback (backup_read_ok env) q st)"
  using assms by (simp add: getLeaderboard_def)

text \<open>
  C5, as stated: \<open>getLeaderboard\<close> never throws to the caller. Its handler reads the
  backup row from the durable store outside any \<open>try\<close>: when the cache read throws
  and this read throws too, the call throws, whether or not a backup record exists.
\<close>

theorem getLeaderboard_throws_when_store_down:
  "metadata lb_backed_up (getBackupKey ''ranked'') \<noteq> None
   \<and> snd (getLeaderboard env_all_down ''ranked'' lb_backed_up) = Inl Store_unavailable"
  by (simp add: getLeaderboard_cache_down env_all_down_def backup_fallback_down
      lb_backed_up_def)

text \<open>
  C5, amended. On a cache hit \<open>getLeaderboard\<close> returns the cached data with
  \<open>isStale\<close> false. On a cache miss it refreshes and returns what the refresh returns,
  which is the fresh data with \<open>isStale\<close> false when the ranking source, the pipeline
  and the inserts all succeed. When the cache read throws, or on a miss when the body of
  the refresh fails, and a backup read answers, it returns the data of the backup record
  with \<open>isStale\<close> true, the empty list when there is no record. It throws exactly when
  the backup read of its own handler throws after the cache read threw or after the
  refresh threw (the refresh throws when its body fails and its own backup read throws).
\<close>

theorem getLeaderboard_fallback:
  "(cache_read_ok env \<and> redis_strings st (getRawKey q) = Some cached \<longrightarrow>
      getLeaderboard env q st = (st, Inr \<lparr>data = cached, isStale = False\<rparr>))
   \<and> (cache_read_ok env \<and> redis_strings st (getRawKey q) = None
        \<and> snd (refreshLeaderboard env q st) = Inr r \<longrightarrow>
      getLeaderboard env q st = (fst (refreshLeaderboard env q st), Inr r))
   \<and> (cache_read_ok env \<and> redis_strings st (getRawKey q) = None
        \<and> get_leaderboard env q = Some fresh \<and> cache_write_ok env \<and> store_write_ok env
        \<and> metadata st (getSnapshotKey q (replace_colon_dot (now_iso env))) = None \<longrightarrow>
      snd (getLeaderboard env q st) = Inr \<lparr>data = fresh, isStale = False\<rparr>)
   \<and> ((\<not> cache_read_ok env \<and> backup_read_ok env)
        \<or> (cache_read_ok env \<and> redis_strings st (getRawKey q) = None
            \<and> isl (snd (refresh_try env q st))
            \<and> (refresh_backup_read_ok env \<or> backup_read_ok env)) \<longrightarrow>
      snd (getLeaderboard env q st) = Inr \<lparr>data = backup_data q st, isStale = True\<rparr>)
   \<and> (isl (snd (getLeaderboard env q st)) \<longleftrightarrow>
        \<not> backup_read_ok env
        \<and> (\<not> cache_read_ok env
            \<or> (redis_strings st (getRawKey q) = None \<and> isl (snd (refresh_try env q st))
                \<and> \<not> refresh_backup_read_ok env)))"
proof -
  have hit: "cache_read_ok env \<and> redis_strings st (getRawKey q) = Some cached \<longrightarrow>
      getLeaderboard env q st = (st, Inr \<lparr>data = cached, isStale = False\<rparr>)"
    using getLeaderboard_hit by blast
  have miss: "cache_read_ok env \<and> redis_strings st (getRawKey q) = None
        \<and> snd (refreshLeaderboard env q st) = Inr r \<longrightarrow>
      getLeaderboard env q st = (fst (refreshLeaderboard env q st), Inr r)"
    using getLeaderboard_miss [of env st q] by (auto simp add: prod_eq_iff)
  have fresh: "cache_read_ok env \<and> redis_strings st (getRawKey q) = None
        \<and> get_leaderboard env q = Some fresh \<and> cache_write_ok env \<and> store_write_ok env
        \<and> metadata st (getSnapshotKey q (replace_colon_dot (now_iso env))) = None \<longrightarrow>
      snd (getLeaderboard env q st) = Inr \<lparr>data = fresh, isStale = False\<rparr>"
    using getLeaderboard_miss(1) [of env st q] refresh_try_success(1) [of env q fresh st]
    by (simp add: refreshLeaderboard_cases)
  have stale: "(\<not> cache_read_ok env \<and> backup_read_ok env)
        \<or> (cache_read_ok env \<and> redis_strings st (getRawKey q) = None
            \<and> isl (snd (refresh_try env q st))
            \<and> (refresh_backup_read_ok env \<or> backup_read_ok env)) \<longrightarrow>
      snd (getLeaderboard env q st) = Inr \<lparr>data = backup_data q st, isStale = True\<rparr>"
    using getLeaderboard_miss(1) [of env st q] getLeaderboard_cache_down [of env q st]
    by (auto simp add: refreshLeaderboard_cases backup_fallback_ok isl_def)
  have throws: "isl (snd (getLeaderboard env q st)) \<longleftrightarrow>
        \<not> backup_read_ok env
        \<and> (\<not> cache_read_ok env
            \<or> (redis_strings st (getRawKey q) = None \<and> isl (snd (refresh_try env q st))
                \<and> \<not> refresh_backup_read_ok env))"
  proof (cases "cache_read_ok env")
    case False
    then show ?thesis
      by (cases "backup_read_ok env")
        (simp_all add: getLeaderboard_cache_down backup_fallback_ok backup_fallback_down)
  next
    case True
    show ?thesis
    proof (cases "redis_strings st (getRawKey q)")
      case (Some cached)
      then show ?thesis
        using True by (simp add: getLeaderboard_hit)
    next
      case None
      show ?thesis
        using True None
        by (cases "snd (refresh_try env q st)")
          (simp_all add: getLeaderboard_miss(1) refreshLeaderboard_cases)
    qed
  qed
  show ?thesis
    using hit miss fresh stale throws by blast
qed


lemma demo_refresh_facts:
  "cache_read_ok env_up" "cache_write_ok env_up" "store_write_ok env_up"
  "get_leaderboard env_up ''ranked'' = Some [demo_entry ''bob'' 1100 1, demo_entry ''alice'' 1032 2]"
  "redis_strings lb_backed_up (getRawKey ''ranked'') = None"
  "metadata lb_backed_up (getSnapshotKey ''ranked'' (replace_colon_dot (now_iso env_up))) = None"
  "backup_data ''ranked'' lb_backed_up = [demo_entry ''alice'' 1032 1]"
  by (simp_all add: env_up_def lb_backed_up_def lb_empty_def getSnapshotKey_def getBackupKey_def
      replace_colon_dot_def backup_data_def)

lemma lb_refreshed_cache:
  "redis_strings lb_refreshed (getRawKey ''ranked'') =
     Some [demo_entry ''bob'' 1100 1, demo_entry ''alice'' 1032 2]"
  unfolding lb_refreshed_def refreshLeaderboard_fst
  by (rule refresh_try_success(3) [OF demo_refresh_facts(4,2,3,6)])

theorem getLeaderboard_fallback_witness:
  "cache_read_ok env_up
   \<and> redis_strings lb_backed_up (getRawKey ''ranked'') = None
   \<and> get_leaderboard env_up ''ranked'' = Some [demo_entry ''bob'' 1100 1, demo_entry ''alice'' 1032 2]
   \<and> snd (getLeaderboard env_up ''ranked'' lb_backed_up) =
       Inr \<lparr>data = [demo_entry ''bob'' 1100 1, demo_entry ''alice'' 1032 2], isStale = False\<rparr>
   \<and> redis_strings lb_refreshed (getRawKey ''ranked'') =
       Some [demo_entry ''bob'' 1100 1, demo_entry ''alice'' 1032 2]
   \<and> getLeaderboard env_up ''ranked'' lb_refreshed =
       (lb_refreshed,
        Inr \<lparr>data = [demo_entry ''bob'' 1100 1, demo_entry ''alice'' 1032 2], isStale = False\<rparr>)
   \<and> \<not> cache_read_ok env_cache_down \<and> backup_read_ok env_cache_down
   \<and> snd (getLeaderboard env_cache_down ''ranked'' lb_backed_up) =
       Inr \<lparr>data = [demo_entry ''alice'' 1032 1], isStale = True\<rparr>
   \<and> isl (snd (refresh_try env_upstream_down ''ranked'' lb_backed_up))
   \<and> snd (getLeaderboard env_upstream_down ''ranked'' lb_backed_up) =
       Inr \<lparr>data = [demo_entry ''alice'' 1032 1], isStale = True\<rparr>
   \<and> isl (snd (refresh_try env_upstream_down ''ranked'' lb_empty))
   \<and> snd (getLeaderboard env_upstream_down ''ranked'' lb_empty) =
       Inr \<lparr>data = [], isStale = True\<rparr>
   \<and> \<not> isl (snd (getLeaderboard env_upstream_down ''ranked'' lb_empty))"
proof -
  let ?fresh = "[demo_entry ''bob'' 1100 1, demo_entry ''alice'' 1032 2]"
  have down: "\<not> cache_read_ok env_cache_down" "backup_read_ok env_cache_down"
    by (simp_all add: env_cache_down_def env_up_def)
  have up: "cache_read_ok env_upstream_down" "backup_read_ok env_upstream_down"
    "refresh_backup_read_ok env_upstream_down"
    "isl (snd (refresh_try env_upstream_down ''ranked'' st))" for st
    by (simp_all add: env_upstream_down_def env_up_def refresh_try_def)
  have miss: "redis_strings lb_empty (getRawKey ''ranked'') = None"
    "backup_data ''ranked'' lb_empty = []"
    by (simp_all add: lb_empty_def backup_data_def)
  have a: "snd (getLeaderboard env_up ''ranked'' lb_backed_up) =
      Inr \<lparr>data = ?fresh, isStale = False\<rparr>"
    using getLeaderboard_fallback [where env = env_up and q = "''ranked''" and st = lb_backed_up
        and fresh = ?fresh] demo_refresh_facts
    by blast
  have b: "getLeaderboard env_up ''ranked'' lb_refreshed =
      (lb_refreshed, Inr \<lparr>data = ?fresh, isStale = False\<rparr>)"
    using getLeaderboard_fallback [where env = env_up and q = "''ranked''" and st = lb_refreshed
        and cached = ?fresh] demo_refresh_facts(1) lb_refreshed_cache
    by blast
  have c: "snd (getLeaderboard env_cache_down ''ranked'' lb_backed_up) =
      Inr \<lparr>data = [demo_entry ''alice'' 1032 1], isStale = True\<rparr>"
    using getLeaderboard_fallback [where env = env_cache_down and q = "''ranked''"
        and st = lb_backed_up] down demo_refresh_facts(7)
    by simp
  have d: "snd (getLeaderboard env_upstream_down ''ranked'' lb_backed_up) =
      Inr \<lparr>data = [demo_entry ''alice'' 1032 1], isStale = True\<rparr>"
    using getLeaderboard_fallback [where env = env_upstream_down and q = "''ranked''"
        and st = lb_backed_up] up demo_refresh_facts(5,7)
    by simp
  have e: "snd (getLeaderboard env_upstream_down ''ranked'' lb_empty) =
      Inr \<lparr>data = [], isStale = True\<rparr>"
    using getLeaderboard_fallback [where env = env_upstream_down and q = "''ranked''"
        and st = lb_empty] up miss
    by simp
  have f: "\<not> isl (snd (getLeaderboard env_upstream_down ''ranked'' lb_empty))"
    using getLeaderboard_fallback [where env = env_upstream_down and q = "''ranked''"
        and st = lb_empty] up(2)
    by blast
  show ?thesis
    using demo_refresh_facts(1,5,4) a lb_refreshed_cache b down c up(4) d e f by blast
qed

section \<open>Rank of one user\<close>

lemma getUserRank_cache_down:
  "\<not> cache_read_ok env \<Longrightarrow> getUserRank env q uid st = (st, None)"
  by (simp add: getUserRank_def)

lemma getUserRank_reply:
  assumes "cache_read_ok env"
  shows "getUserRank env q uid st =
     (st, Some \<lparr>data = (case redis_hashes st (getUserKey uid q) of
                          None \<Rightarrow> Empty_entry
                        | Some (entry, queue_id) \<Rightarrow> Entry entry),
              isStale = False\<rparr>)"
  using assms
  by (simp add: getUserRank_def hgetall_def entry_of_hash_def split: option.splits)

text \<open>
  C6. On a cache miss \<open>getUserRank\<close> is to refresh the leaderboard and to return the
  user's entry from the fresh data, or from the backup with \<open>isStale\<close> true, and null
  only for a user absent everywhere. The code does not do so. With nothing cached for
  alice, the ranking source answering with a list that holds her entry and the backup
  record holding her entry too, the reply of \<open>hgetall\<close> is the empty object, the test
  \<open>if (userData)\<close> succeeds, and the call returns the object built from the empty hash
  with \<open>isStale\<close> false, without a refresh: the store is as before, and the result is
  neither her entry nor null.
\<close>

theorem getUserRank_miss_returns_empty_hash:
  "cache_read_ok env_up
   \<and> redis_hashes lb_backed_up (getUserKey ''alice'' ''ranked'') = None
   \<and> map_option (find_user ''alice'') (get_leaderboard env_up ''ranked'') =
       Some (Some (demo_entry ''alice'' 1032 2))
   \<and> find_user ''alice'' (backup_data ''ranked'' lb_backed_up) = Some (demo_entry ''alice'' 1032 1)
   \<and> getUserRank env_up ''ranked'' ''alice'' lb_backed_up =
       (lb_backed_up, Some \<lparr>data = Empty_entry, isStale = False\<rparr>)
   \<and> snd (refreshLeaderboard env_up ''ranked'' lb_backed_up) =
       Inr \<lparr>data = [demo_entry ''bob'' 1100 1, demo_entry ''alice'' 1032 2], isStale = False\<rparr>"
proof -
  have miss: "redis_hashes lb_backed_up (getUserKey ''alice'' ''ranked'') = None"
    by (simp add: lb_backed_up_def lb_empty_def)
  have fresh: "map_option (find_user ''alice'') (get_leaderboard env_up ''ranked'') =
      Some (Some (demo_entry ''alice'' 1032 2))"
    by (simp add: demo_refresh_facts(4) find_user_def demo_entry_def)
  have backup: "find_user ''alice'' (backup_data ''ranked'' lb_backed_up) =
      Some (demo_entry ''alice'' 1032 1)"
    by (simp add: demo_refresh_facts(7) find_user_def demo_entry_def)
  have reply: "getUserRank env_up ''ranked'' ''alice'' lb_backed_up =
      (lb_backed_up, Some \<lparr>data = Empty_entry, isStale = False\<rparr>)"
    by (simp add: getUserRank_reply [OF demo_refresh_facts(1)] miss)
  have refresh: "snd (refreshLeaderboard env_up ''ranked'' lb_backed_up) =
      Inr \<lparr>data = [demo_entry ''bob'' 1100 1, demo_entry ''alice'' 1032 2], isStale = False\<rparr>"
    by (simp add: refreshLeaderboard_cases
        refresh_try_success(1) [OF demo_refresh_facts(4,2,3,6)])
  show ?thesis
    using demo_refresh_facts(1) miss fresh backup reply refresh by blast
qed

end
